theory Spec2Isabelle
  imports Main
begin

section \<open>Strings and characters\<close>

text \<open>
  A Python \<^verbatim>\<open>str\<close> is a sequence of code points. The model covers the code points
  below 256: a text is a \<^typ>\<open>string\<close>, and the copyright sign U+00A9 is the character
  with code 169. The character tests below are those of Python on this range:
  \<^verbatim>\<open>str.isspace\<close> (also the class \<^verbatim>\<open>\s\<close> of \<^verbatim>\<open>re\<close>),
  \<^verbatim>\<open>str.isalpha\<close>, \<^verbatim>\<open>str.lower\<close>, and the classes \<^verbatim>\<open>\d\<close> and \<^verbatim>\<open>\w\<close>.

  Every statement of this theory about a text is therefore a statement about a text of
  code points below 256. Beyond that range Python behaves differently in places: under
  \<^verbatim>\<open>IGNORECASE\<close> the module \<^verbatim>\<open>re\<close> matches the letters \<^verbatim>\<open>i\<close>, \<^verbatim>\<open>s\<close> and \<^verbatim>\<open>k\<close> of a
  pattern also with U+0130 and U+0131, with U+017F, and with U+212A, which
  \<^verbatim>\<open>str.lower\<close> does not map to these letters.
\<close>

definition code :: "char \<Rightarrow> nat" where
  "code c = of_char c"

definition between :: "nat \<Rightarrow> nat \<Rightarrow> char \<Rightarrow> bool" where
  "between lo hi c = (lo \<le> code c \<and> code c \<le> hi)"

definition isspace :: "char \<Rightarrow> bool" where
  "isspace c = (between 9 13 c \<or> between 28 32 c \<or> code c = 133 \<or> code c = 160)"

definition isalpha :: "char \<Rightarrow> bool" where
  "isalpha c = (between 65 90 c \<or> between 97 122 c \<or> code c = 170 \<or> code c = 181
     \<or> code c = 186 \<or> between 192 214 c \<or> between 216 246 c \<or> between 248 255 c)"

definition isdigit_re :: "char \<Rightarrow> bool" where
  "isdigit_re c = between 48 57 c"

definition isword_re :: "char \<Rightarrow> bool" where
  "isword_re c = (isalpha c \<or> between 48 57 c \<or> code c = 95 \<or> between 178 179 c
     \<or> code c = 185 \<or> between 188 190 c)"

definition has_upper :: "char \<Rightarrow> bool" where
  "has_upper c = (between 65 90 c \<or> between 192 214 c \<or> between 216 222 c)"

definition lower_char :: "char \<Rightarrow> char" where
  "lower_char c = (if has_upper c then char_of (code c + 32) else c)"

text \<open>
  The upper-case partner of a lower-case letter, where that partner is again below 256
  (the upper-case forms of U+00B5, U+00DF and U+00FF are not).
\<close>

definition upper_char :: "char \<Rightarrow> char" where
  "upper_char c = (if between 97 122 c \<or> between 224 246 c \<or> between 248 254 c
                   then char_of (code c - 32) else c)"

definition lower :: "string \<Rightarrow> string" where
  "lower s = map lower_char s"

definition lstrip :: "string \<Rightarrow> string" where
  "lstrip s = dropWhile isspace s"

definition rstrip :: "string \<Rightarrow> string" where
  "rstrip s = rev (dropWhile isspace (rev s))"

definition strip :: "string \<Rightarrow> string" where
  "strip s = rstrip (lstrip s)"

definition rstrip_chars :: "string \<Rightarrow> string \<Rightarrow> string" where
  "rstrip_chars cs s = rev (dropWhile (\<lambda>c. c \<in> set cs) (rev s))"

definition startswith :: "string \<Rightarrow> string \<Rightarrow> bool" where
  "startswith s p = (take (length p) s = p)"

definition endswith :: "string \<Rightarrow> string \<Rightarrow> bool" where
  "endswith s p = (length p \<le> length s \<and> drop (length s - length p) s = p)"

text \<open>The substring test \<^verbatim>\<open>p in s\<close>.\<close>

fun contains :: "string \<Rightarrow> string \<Rightarrow> bool" where
  "contains [] p = (p = [])"
| "contains (x # xs) p = (startswith (x # xs) p \<or> contains xs p)"

section \<open>Regular expressions of the \<^verbatim>\<open>re\<close> module\<close>

text \<open>
  The patterns of the sources use literals, character classes, the dot, concatenation,
  ordered alternation, the optional group, greedy and lazy repetition of a single
  character or class, one capturing group and the word boundary. The matcher below is
  the backtracking search of \<^verbatim>\<open>re\<close> on that fragment: alternatives are tried in order,
  a greedy repetition takes as many characters as it can and gives them back one at a
  time, a lazy one takes as few as it can and grows one at a time, and the first
  complete match wins.
\<close>

datatype citem = CChar char | CRange char char | CSpace | CDigit | CWord

datatype atom = Lit char | AnyChar | In "citem list" | NotIn "citem list"

datatype regex =
    Eps
  | Atom atom
  | Seq regex regex
  | Alt regex regex
  | Opt regex
  | Rep atom nat "nat option"
  | RepLazy atom nat "nat option"
  | Grp regex
  | WordB

record flags =
  ignorecase :: bool
  dotall :: bool

definition no_flags :: flags where
  "no_flags = \<lparr>ignorecase = False, dotall = False\<rparr>"

definition flags_I :: flags where
  "flags_I = \<lparr>ignorecase = True, dotall = False\<rparr>"

definition flags_IS :: flags where
  "flags_IS = \<lparr>ignorecase = True, dotall = True\<rparr>"

text \<open>
  A class item against a character. Under \<^verbatim>\<open>IGNORECASE\<close> the compiled class holds the
  lower-case form of every literal and of every character of a range, and the
  lower-cased text character is looked up in it; the categories are tested on the
  lower-cased character.
\<close>

fun item_ok :: "bool \<Rightarrow> citem \<Rightarrow> char \<Rightarrow> bool" where
  "item_ok ic (CChar c) x = (if ic then lower_char x = lower_char c else x = c)"
| "item_ok ic (CRange lo hi) x =
     (if ic then between (code lo) (code hi) x \<or> between (code lo) (code hi) (lower_char x)
                 \<or> between (code lo) (code hi) (upper_char x)
      else between (code lo) (code hi) x)"
| "item_ok ic CSpace x = isspace (if ic then lower_char x else x)"
| "item_ok ic CDigit x = isdigit_re (if ic then lower_char x else x)"
| "item_ok ic CWord x = isword_re (if ic then lower_char x else x)"

fun atom_ok :: "flags \<Rightarrow> atom \<Rightarrow> char \<Rightarrow> bool" where
  "atom_ok f (Lit c) x = (if ignorecase f then lower_char x = lower_char c else x = c)"
| "atom_ok f AnyChar x = (if dotall f then True else code x \<noteq> 10)"
| "atom_ok f (In items) x = list_ex (\<lambda>i. item_ok (ignorecase f) i x) items"
| "atom_ok f (NotIn items) x = (\<not> list_ex (\<lambda>i. item_ok (ignorecase f) i x) items)"

text \<open>
  The state of a match attempt: the character before the current position (for the word
  boundary), the text still to be read, the number of characters matched so far, and the
  span of group 1 (as offsets from the start of the match) once it has closed.
\<close>

type_synonym mstate = "char option \<times> string \<times> nat \<times> (nat \<times> nat) option"

definition below :: "nat \<Rightarrow> nat option \<Rightarrow> bool" where
  "below n hi = (case hi of None \<Rightarrow> True | Some h \<Rightarrow> n < h)"

text \<open>
  The matcher takes the rest of the pattern as a continuation \<open>k\<close>: what has to match
  after this piece. A piece that fails makes the search fall back to the latest choice
  still open.

  A greedy repetition \<open>a{lo,hi}\<close> that has taken \<open>n\<close> characters takes one more if it
  can and, when the rest of the match fails from there, goes on from where it stands,
  provided \<open>n\<close> has reached \<open>lo\<close>. A lazy repetition tries to go on first and takes
  one more character when that fails.
\<close>

fun rep_greedy :: "flags \<Rightarrow> atom \<Rightarrow> nat \<Rightarrow> nat option \<Rightarrow> (mstate \<Rightarrow> 'r option) \<Rightarrow> nat \<Rightarrow> mstate
    \<Rightarrow> 'r option" where
  "rep_greedy f a lo hi k n (p, [], m, g) = (if lo \<le> n then k (p, [], m, g) else None)"
| "rep_greedy f a lo hi k n (p, x # xs, m, g) =
     (if atom_ok f a x \<and> below n hi
      then (case rep_greedy f a lo hi k (n + 1) (Some x, xs, m + 1, g) of
              Some r \<Rightarrow> Some r
            | None \<Rightarrow> if lo \<le> n then k (p, x # xs, m, g) else None)
      else if lo \<le> n then k (p, x # xs, m, g) else None)"

fun rep_lazy :: "flags \<Rightarrow> atom \<Rightarrow> nat \<Rightarrow> nat option \<Rightarrow> (mstate \<Rightarrow> 'r option) \<Rightarrow> nat \<Rightarrow> mstate
    \<Rightarrow> 'r option" where
  "rep_lazy f a lo hi k n (p, [], m, g) = (if lo \<le> n then k (p, [], m, g) else None)"
| "rep_lazy f a lo hi k n (p, x # xs, m, g) =
     (case (if lo \<le> n then k (p, x # xs, m, g) else None) of
        Some r \<Rightarrow> Some r
      | None \<Rightarrow> if atom_ok f a x \<and> below n hi
                then rep_lazy f a lo hi k (n + 1) (Some x, xs, m + 1, g)
                else None)"

definition is_word_opt :: "char option \<Rightarrow> bool" where
  "is_word_opt p = (case p of None \<Rightarrow> False | Some c \<Rightarrow> isword_re c)"

definition next_char :: "string \<Rightarrow> char option" where
  "next_char s = (case s of [] \<Rightarrow> None | x # _ \<Rightarrow> Some x)"

fun close_group :: "nat \<Rightarrow> (mstate \<Rightarrow> 'r option) \<Rightarrow> mstate \<Rightarrow> 'r option" where
  "close_group m k (p', s', m', g') = k (p', s', m', Some (m, m'))"

fun rmatch :: "flags \<Rightarrow> regex \<Rightarrow> (mstate \<Rightarrow> 'r option) \<Rightarrow> mstate \<Rightarrow> 'r option" where
  "rmatch f Eps k st = k st"
| "rmatch f (Atom a) k (p, [], m, g) = None"
| "rmatch f (Atom a) k (p, x # xs, m, g) =
     (if atom_ok f a x then k (Some x, xs, m + 1, g) else None)"
| "rmatch f (Seq a b) k st = rmatch f a (rmatch f b k) st"
| "rmatch f (Alt a b) k st =
     (case rmatch f a k st of Some r \<Rightarrow> Some r | None \<Rightarrow> rmatch f b k st)"
| "rmatch f (Opt a) k st =
     (case rmatch f a k st of Some r \<Rightarrow> Some r | None \<Rightarrow> k st)"
| "rmatch f (Rep a lo hi) k st = rep_greedy f a lo hi k 0 st"
| "rmatch f (RepLazy a lo hi) k st = rep_lazy f a lo hi k 0 st"
| "rmatch f (Grp r) k (p, s, m, g) = rmatch f r (close_group m k) (p, s, m, g)"
| "rmatch f WordB k (p, s, m, g) =
     (if is_word_opt p \<noteq> is_word_opt (next_char s) then k (p, s, m, g) else None)"

text \<open>
  A match attempt at one position: the number of characters matched and the span of
  group 1.
\<close>

fun finish :: "mstate \<Rightarrow> (nat \<times> (nat \<times> nat) option) option" where
  "finish (p', s', m', g) = Some (m', g)"

definition match_at :: "flags \<Rightarrow> regex \<Rightarrow> char option \<Rightarrow> string \<Rightarrow> (nat \<times> (nat \<times> nat) option) option" where
  "match_at f r p s = rmatch f r finish (p, s, 0, None)"

text \<open>\<^verbatim>\<open>match.group(1)\<close> of a match that starts at the head of \<open>s\<close>.\<close>

definition group_text :: "string \<Rightarrow> (nat \<times> nat) option \<Rightarrow> string option" where
  "group_text s g = (case g of None \<Rightarrow> None | Some (a, b) \<Rightarrow> Some (take (b - a) (drop a s)))"

text \<open>
  \<^verbatim>\<open>re.finditer\<close>: the text is scanned from left to right; after a match the scan
  goes on where the match ended. Of each match the sources read only group 1, so that is
  what the list holds. (No pattern of the sources matches the empty string; after an
  empty match the scan moves on by one character.)
\<close>

fun scan :: "flags \<Rightarrow> regex \<Rightarrow> char option \<Rightarrow> string \<Rightarrow> string option list" where
  "scan f r p [] = (case match_at f r p [] of None \<Rightarrow> [] | Some (n, g) \<Rightarrow> [group_text [] g])"
| "scan f r p (x # xs) =
     (case match_at f r p (x # xs) of
        None \<Rightarrow> scan f r (Some x) xs
      | Some (n, g) \<Rightarrow>
          group_text (x # xs) g #
            (if n \<le> 1 then scan f r (Some x) xs
             else scan f r (Some (xs ! (n - 2))) (drop (n - 1) xs)))"

definition finditer :: "flags \<Rightarrow> regex \<Rightarrow> string \<Rightarrow> string option list" where
  "finditer f r s = scan f r None s"

text \<open>\<^verbatim>\<open>re.sub\<close> with a constant replacement: the same scan, the matches replaced.\<close>

fun sub_from :: "flags \<Rightarrow> regex \<Rightarrow> string \<Rightarrow> char option \<Rightarrow> string \<Rightarrow> string" where
  "sub_from f r repl p [] = (case match_at f r p [] of None \<Rightarrow> [] | Some _ \<Rightarrow> repl)"
| "sub_from f r repl p (x # xs) =
     (case match_at f r p (x # xs) of
        None \<Rightarrow> x # sub_from f r repl (Some x) xs
      | Some (n, g) \<Rightarrow>
          if n = 0 then repl @ x # sub_from f r repl (Some x) xs
          else if n = 1 then repl @ sub_from f r repl (Some x) xs
          else repl @ sub_from f r repl (Some (xs ! (n - 2))) (drop (n - 1) xs))"

definition re_sub :: "flags \<Rightarrow> regex \<Rightarrow> string \<Rightarrow> string \<Rightarrow> string" where
  "re_sub f r repl s = sub_from f r repl None s"

subsection \<open>Writing patterns\<close>

definition seqs :: "regex list \<Rightarrow> regex" where
  "seqs rs = foldr Seq rs Eps"

fun alts :: "regex list \<Rightarrow> regex" where
  "alts [] = Eps"
| "alts [r] = r"
| "alts (r # rs) = Alt r (alts rs)"

text \<open>A literal string, as \<^verbatim>\<open>re.escape\<close> produces it.\<close>

definition lit :: "string \<Rightarrow> regex" where
  "lit s = seqs (map (\<lambda>c. Atom (Lit c)) s)"

definition star :: "atom \<Rightarrow> regex" where
  "star a = Rep a 0 None"

definition plus :: "atom \<Rightarrow> regex" where
  "plus a = Rep a 1 None"

definition ws0 :: regex where
  "ws0 = star (In [CSpace])"

definition ws1 :: regex where
  "ws1 = plus (In [CSpace])"

text \<open>The words of a phrase with \<^verbatim>\<open>\s+\<close> between them.\<close>

fun phrase :: "string list \<Rightarrow> regex" where
  "phrase [] = Eps"
| "phrase [w] = lit w"
| "phrase (w # ws) = Seq (lit w) (Seq ws1 (phrase ws))"

section \<open>\<^verbatim>\<open>company_name_extractor.py\<close>: class \<^verbatim>\<open>CompanyNameExtractor\<close>\<close>

subsection \<open>The pattern list\<close>

text \<open>\<^verbatim>\<open>[A-Z]\<close> and \<^verbatim>\<open>[a-zA-Z0-9\s\&\-'.,]\<close>.\<close>

definition cap :: regex where
  "cap = Atom (In [CRange CHR ''A'' CHR ''Z''])"

definition name_class :: atom where
  "name_class = In [CRange CHR ''a'' CHR ''z'', CRange CHR ''A'' CHR ''Z'',
     CRange CHR ''0'' CHR ''9'', CSpace, CChar CHR ''&'', CChar CHR ''-'', CChar (CHR 0x27),
     CChar CHR ''.'', CChar CHR '','']"

text \<open>\<^verbatim>\<open>(?:Ltd|Limited|LLC|Inc|Corp|Corporation|GmbH|B\.V\.|Pty\s+Ltd|S\.A\.)\<close>\<close>

definition legal_suffix :: regex where
  "legal_suffix = alts [lit ''Ltd'', lit ''Limited'', lit ''LLC'', lit ''Inc'', lit ''Corp'',
     lit ''Corporation'', lit ''GmbH'', lit ''B.V.'', phrase [''Pty'', ''Ltd''], lit ''S.A.'']"

text \<open>\<^verbatim>\<open>([A-Z][a-zA-Z0-9\s\&\-'.,]+(?:Ltd|...|S\.A\.))\<close>, group 1 of most patterns.\<close>

definition entity :: regex where
  "entity = Grp (seqs [cap, plus name_class, legal_suffix])"

text \<open>
  \<^verbatim>\<open>(?:C|copyright|\(c\))\s*(?:20\d{2}(?:-20\d{2})?)\s+\<close>, where \<^verbatim>\<open>C\<close> stands for the
  copyright sign U+00A9.
\<close>

definition year :: regex where
  "year = seqs [lit ''20'', Rep (In [CDigit]) 2 (Some 2)]"

definition copyright_year :: regex where
  "copyright_year = seqs [alts [lit [CHR 0xA9], lit ''copyright'', lit ''(c)''], ws0,
     year, Opt (Seq (lit ''-'') year), ws1]"

text \<open>
  \<^verbatim>\<open>(?:Number|No)\.?:?\s+\d+\<close>. The class after it holds the hyphen and the dash U+2013
  (written \<^verbatim>\<open>[-D]\<close> here, with \<^verbatim>\<open>D\<close> for the dash). The dash is a code point above 255: no
  text of the model contains it, so on the texts of the model the class matches the
  hyphen alone, and it is written so.
\<close>

definition number_no :: regex where
  "number_no = seqs [alts [lit ''Number'', lit ''No''], Opt (lit ''.''), Opt (lit '':''), ws1,
     plus (In [CDigit])]"

definition dash :: regex where
  "dash = Atom (In [CChar CHR ''-''])"

definition quote :: regex where
  "quote = Atom (In [CChar CHR 0x22, CChar CHR 0x27])"

definition not_gt :: atom where
  "not_gt = NotIn [CChar CHR ''>'']"

text \<open>The patterns, in the order of the list \<^verbatim>\<open>company_patterns\<close>.\<close>

text \<open>Standard copyright patterns\<close>

definition pat_copyright :: regex where
  "pat_copyright = seqs [copyright_year, entity]"

text \<open>Just copyright year and name without legal suffix\<close>

definition pat_copyright_plain :: regex where
  "pat_copyright_plain = seqs [copyright_year, Grp (seqs [cap, Rep name_class 3 (Some 50)])]"

text \<open>Legal/data controller/processor patterns\<close>

definition pat_controller :: regex where
  "pat_controller = seqs [alts [phrase [''data'', ''controller''], phrase [''data'', ''processor''],
     phrase [''data'', ''owner'']], ws1, lit ''is'', ws1, entity]"

text \<open>Operated by patterns\<close>

definition pat_operated :: regex where
  "pat_operated = seqs [alts [phrase [''is'', ''owned'', ''and'', ''operated'', ''by''],
     phrase [''trading'', ''as''], lit ''t/a'', phrase [''operated'', ''by'']], ws1, entity]"

text \<open>Developed by patterns\<close>

definition pat_developed :: regex where
  "pat_developed = seqs [alts [lit ''developed'', lit ''powered''], ws1, lit ''by'', ws1, entity]"

text \<open>Footer company with All rights reserved: \<^verbatim>\<open>(...)(?:\s+All\s+[Rr]ights\s+[Rr]eserved)\<close>\<close>

definition rights_reserved :: regex where
  "rights_reserved = seqs [ws1, lit ''All'', ws1, Atom (In [CChar CHR ''R'', CChar CHR ''r'']),
     lit ''ights'', ws1, Atom (In [CChar CHR ''R'', CChar CHR ''r'']), lit ''eserved'']"

definition pat_rights_reserved :: regex where
  "pat_rights_reserved = seqs [entity, rights_reserved]"

text \<open>Contact us / about us section company names\<close>

definition pat_contact_about :: regex where
  "pat_contact_about = seqs [alts [lit ''Contact'', lit ''About''], ws1, entity]"

text \<open>Company with registered address\<close>

definition pat_registered_at :: regex where
  "pat_registered_at = seqs [entity, ws1, phrase [''is'', ''registered'', ''at'']]"

text \<open>Company with registration number\<close>

definition pat_reg_no_before :: regex where
  "pat_reg_no_before = seqs [phrase [''Company'', ''Registration''], ws1, number_no, ws0, dash, ws0,
     Grp (seqs [cap, plus name_class])]"

definition pat_reg_no_after :: regex where
  "pat_reg_no_after = seqs [Grp (seqs [cap, plus name_class]), ws1,
     phrase [''Company'', ''Registration''], ws1, number_no]"

text \<open>Company with VAT number\<close>

definition pat_vat_before :: regex where
  "pat_vat_before = seqs [lit ''VAT'', ws1, number_no, ws0, dash, ws0,
     Grp (seqs [cap, plus name_class])]"

definition pat_vat_after :: regex where
  "pat_vat_after = seqs [Grp (seqs [cap, plus name_class]), ws1, lit ''VAT'', ws1, number_no]"

text \<open>Simple company name in footer (less reliable)\<close>

definition pat_footer :: regex where
  "pat_footer = seqs [lit ''<footer'', star not_gt, lit ''>'', RepLazy AnyChar 0 None,
     Grp (seqs [cap, Rep name_class 2 (Some 50), legal_suffix]),
     RepLazy AnyChar 0 None, lit ''</footer>'']"

text \<open>Company names in meta tags\<close>

definition pat_meta :: "string \<Rightarrow> string \<Rightarrow> regex" where
  "pat_meta attr val = seqs [lit ''<meta'', ws1, lit attr, lit ''='', quote, lit val, quote,
     star not_gt, lit ''content='', quote, entity, quote, star not_gt, lit ''>'']"

definition pat_meta_author :: regex where
  "pat_meta_author = pat_meta ''name'' ''author''"

definition pat_meta_site_name :: regex where
  "pat_meta_site_name = pat_meta ''property'' ''og:site_name''"

text \<open>Company name in typical about page phrases\<close>

definition pat_founded :: regex where
  "pat_founded = seqs [phrase [''was'', ''founded''], ws1, alts [lit ''in'', lit ''by''], ws1, entity]"

definition pat_welcome :: regex where
  "pat_welcome = seqs [phrase [''welcome'', ''to''], ws1, entity]"

definition company_patterns :: "regex list" where
  "company_patterns = [pat_copyright, pat_copyright_plain, pat_controller, pat_operated,
     pat_developed, pat_rights_reserved, pat_contact_about, pat_registered_at,
     pat_reg_no_before, pat_reg_no_after, pat_vat_before, pat_vat_after, pat_footer,
     pat_meta_author, pat_meta_site_name, pat_founded, pat_welcome]"

definition cleanup_phrases :: "string list" where
  "cleanup_phrases = [''All Rights Reserved'', ''Privacy Policy'', ''Terms of Service'',
     ''Terms and Conditions'', ''Home'', ''About'', ''Contact'', ''Copyright'', ''Website'']"

subsection \<open>Validation, normalisation, cleaning\<close>

definition suspicious :: "string list" where
  "suspicious = [''all rights reserved'', ''privacy policy'', ''terms of service'',
     ''cookie policy'', ''sitemap'', ''contact us'', ''about us'']"

text \<open>\<^verbatim>\<open>_validate_company_name\<close>\<close>

definition validate_company_name :: "string \<Rightarrow> bool" where
  "validate_company_name name =
     (if name = [] \<or> length name < 3 then False
      else if \<not> list_ex isalpha name then False
      else if list_ex (\<lambda>pattern. contains (lower name) pattern \<and> length name < 30) suspicious
      then False
      else True)"

definition legal_suffixes :: "string list" where
  "legal_suffixes = [''ltd'', ''limited'', ''llc'', ''inc'', ''corp'', ''corporation'',
     ''gmbh'', ''b.v.'', ''pty ltd'', ''s.a.'', ''co.'']"

definition drop_suffix :: "string \<Rightarrow> string \<Rightarrow> string" where
  "drop_suffix normalized suffix =
     (if endswith normalized suffix
      then strip (take (length normalized - length suffix) normalized)
      else normalized)"

text \<open>\<^verbatim>\<open>re.sub(r'\s+', ' ', s).strip()\<close>\<close>

definition squeeze :: "string \<Rightarrow> string" where
  "squeeze s = strip (re_sub no_flags ws1 '' '' s)"

text \<open>\<^verbatim>\<open>_normalize_company_name\<close>\<close>

definition normalize_company_name :: "string \<Rightarrow> string" where
  "normalize_company_name name =
     (if name = [] then []
      else squeeze (re_sub no_flags (Atom (NotIn [CWord, CSpace])) []
                      (foldl drop_suffix (lower name) legal_suffixes)))"

text \<open>\<^verbatim>\<open><[^>]+>\<close>\<close>

definition tag :: regex where
  "tag = seqs [lit ''<'', plus not_gt, lit ''>'']"

definition remove_phrase :: "string \<Rightarrow> string \<Rightarrow> string" where
  "remove_phrase cleaned ph = re_sub flags_I (lit ph) [] cleaned"

text \<open>
  \<^verbatim>\<open>_clean_company_name\<close>. The argument is \<^verbatim>\<open>None\<close> or a string; both \<^verbatim>\<open>None\<close> and the
  empty string are falsy and give \<^verbatim>\<open>None\<close>.
\<close>

definition clean_company_name :: "string option \<Rightarrow> string option" where
  "clean_company_name name =
     (case name of
        None \<Rightarrow> None
      | Some n \<Rightarrow>
          if n = [] then None
          else Some (squeeze (rstrip_chars ''.,;:''
                 (foldl remove_phrase (squeeze (re_sub no_flags tag [] n)) cleanup_phrases))))"

subsection \<open>Aggregation\<close>

text \<open>
  The dictionary \<^verbatim>\<open>counts\<close> keeps its keys in insertion order, and that order is what
  \<^verbatim>\<open>sorted\<close> starts from: it is an association list. \<^verbatim>\<open>counts[k] = counts.get(k, 0) + 1\<close>
  leaves an existing key in its place and puts a new key at the end.
\<close>

fun bump :: "('k \<times> nat) list \<Rightarrow> 'k \<Rightarrow> ('k \<times> nat) list" where
  "bump [] k = [(k, 1)]"
| "bump ((k', c) # kvs) k = (if k' = k then (k', c + 1) # kvs else (k', c) # bump kvs k)"

definition tally :: "'k list \<Rightarrow> ('k \<times> nat) list" where
  "tally cs = foldl bump [] cs"

text \<open>
  \<^verbatim>\<open>sorted(counts.items(), key=lambda x: x[1], reverse=True)\<close>: a stable sort by count,
  largest first; with \<^verbatim>\<open>reverse=True\<close> items of equal count keep their order.
\<close>

definition sorted_by_count :: "('k \<times> nat) list \<Rightarrow> ('k \<times> nat) list" where
  "sorted_by_count kvs = sort_key (\<lambda>kv. - int (snd kv)) kvs"

text \<open>\<^verbatim>\<open>sorted_candidates[0][0]\<close>, for a non-empty list of candidates.\<close>

definition best_candidate :: "'k list \<Rightarrow> 'k" where
  "best_candidate cs = fst (hd (sorted_by_count (tally cs)))"

subsection \<open>Extraction from a text\<close>

text \<open>
  The candidates of one pattern: \<^verbatim>\<open>match.group(1).strip()\<close> of every match, kept when it
  validates.
\<close>

definition pattern_candidates :: "string \<Rightarrow> regex \<Rightarrow> string list" where
  "pattern_candidates text pattern =
     concat (map (\<lambda>g. case g of None \<Rightarrow> []
                      | Some t \<Rightarrow> if validate_company_name (strip t) then [strip t] else [])
                 (finditer flags_IS pattern text))"

definition candidates :: "string \<Rightarrow> string list" where
  "candidates text = concat (map (pattern_candidates text) company_patterns)"

text \<open>\<^verbatim>\<open>extract_company_name_from_text\<close>\<close>

definition extract_company_name_from_text :: "string \<Rightarrow> string option" where
  "extract_company_name_from_text text =
     (if text = [] then None
      else if candidates text \<noteq> []
      then clean_company_name
             (Some (best_candidate (map normalize_company_name (candidates text))))
      else None)"

subsection \<open>The network\<close>

text \<open>
  \<^verbatim>\<open>requests.get\<close> answers with a response (status code and body) or raises an
  exception. The exceptions are told apart as the \<^verbatim>\<open>except\<close> clauses of the sources tell
  them apart: \<^verbatim>\<open>requests.exceptions.ConnectionError\<close>, \<^verbatim>\<open>requests.exceptions.Timeout\<close>,
  any other \<^verbatim>\<open>requests.exceptions.RequestException\<close>, and (\<open>OtherException\<close>) an
  exception of a class outside \<^verbatim>\<open>requests.exceptions\<close>, which \<^verbatim>\<open>requests.get\<close> lets
  through in some cases: for a host with an empty label, such as \<^verbatim>\<open>a..b.com\<close>, it raises
  the \<^verbatim>\<open>LocationParseError\<close> of \<^verbatim>\<open>urllib3\<close>.

  What the network answers is not fixed by the program: it is a parameter, a function
  from the number of requests sent so far and the URL to the outcome of the next
  request, so that the same URL may answer differently each time. The clock (the number
  of requests sent) is threaded through the functions that fetch. \<^verbatim>\<open>time.sleep\<close>
  changes no value and is left out.
\<close>

datatype http_result =
  Response nat string | ConnectionError | Timeout | RequestException | OtherException

type_synonym network = "nat \<Rightarrow> string \<Rightarrow> http_result"

text \<open>
  A function of the sources returns a value or ends with an exception that it does not
  catch: its model returns \<open>Inr\<close> of the value or \<open>Inl\<close> of the error.
\<close>

datatype error = Uncaught

text \<open>
  \<^verbatim>\<open>fetch_url\<close>: the loop \<^verbatim>\<open>for attempt in range(max_retries)\<close>, with the attempts
  left as the counter. The \<^verbatim>\<open>try\<close> has the three \<^verbatim>\<open>except\<close> clauses for the exceptions
  of \<^verbatim>\<open>requests\<close> and no other: an exception of another class leaves the function.
\<close>

fun fetch_attempts :: "network \<Rightarrow> string \<Rightarrow> nat \<Rightarrow> nat \<Rightarrow> error + (string option \<times> nat)" where
  "fetch_attempts net url 0 t = Inr (None, t)"
| "fetch_attempts net url (Suc n) t =
     (case net t url of
        Response status_code body \<Rightarrow>
          if status_code = 200 then Inr (Some body, Suc t)
          else if status_code = 403 then Inr (None, Suc t)
          else if status_code = 404 then Inr (None, Suc t)
          else fetch_attempts net url n (Suc t)
      | ConnectionError \<Rightarrow> fetch_attempts net url n (Suc t)
      | Timeout \<Rightarrow> fetch_attempts net url n (Suc t)
      | RequestException \<Rightarrow> fetch_attempts net url n (Suc t)
      | OtherException \<Rightarrow> Inl Uncaught)"

definition fetch_url :: "network \<Rightarrow> string \<Rightarrow> nat \<Rightarrow> nat \<Rightarrow> error + (string option \<times> nat)" where
  "fetch_url net url max_retries t = fetch_attempts net url max_retries t"

text \<open>The default \<^verbatim>\<open>max_retries=3\<close>, which every call of the sources uses.\<close>

definition default_retries :: nat where
  "default_retries = 3"

subsection \<open>Policy pages\<close>

text \<open>\<^verbatim>\<open>s.split(c)[0]\<close>: the text before the first \<open>c\<close>.\<close>

definition before_first :: "char \<Rightarrow> string \<Rightarrow> string" where
  "before_first c s = takeWhile (\<lambda>x. x \<noteq> c) s"

text \<open>\<^verbatim>\<open>normalize_url\<close>\<close>

definition normalize_url :: "string \<Rightarrow> string \<Rightarrow> string" where
  "normalize_url base_url relative_url =
     (if startswith relative_url ''http://'' \<or> startswith relative_url ''https://''
      then relative_url
      else let base_parts = before_first CHR ''?'' (before_first CHR ''#'' base_url)
           in if startswith relative_url ''/''
              then (if endswith base_parts ''/'' then butlast base_parts else base_parts)
                     @ relative_url
              else (if \<not> endswith base_parts ''/'' then base_parts @ ''/'' else base_parts)
                     @ relative_url)"

text \<open>\<^verbatim>\<open><a[^>]*href="([^"]*WORD[^"]*)"[^>]*>\<close>\<close>

definition not_dq :: atom where
  "not_dq = NotIn [CChar CHR 0x22]"

definition href_pattern :: "string \<Rightarrow> regex" where
  "href_pattern w = seqs [lit ''<a'', star not_gt, lit ''href='', lit [CHR 0x22],
     Grp (seqs [star not_dq, lit w, star not_dq]), lit [CHR 0x22], star not_gt, lit ''>'']"

definition privacy_policy_patterns :: "regex list" where
  "privacy_policy_patterns = [href_pattern ''privacy'', href_pattern ''policy'',
     href_pattern ''terms'', href_pattern ''imprint'', href_pattern ''impressum'',
     href_pattern ''legal'']"

definition common_policy_paths :: "string list" where
  "common_policy_paths = [''/privacy'', ''/privacy-policy'', ''/terms'', ''/terms-of-service'',
     ''/terms-and-conditions'', ''/legal'', ''/imprint'', ''/impressum'', ''/datenschutz'']"

text \<open>The first loop of \<^verbatim>\<open>find_privacy_policy_url\<close>: pattern by pattern, every match appended.\<close>

definition markup_urls :: "string \<Rightarrow> string \<Rightarrow> string list" where
  "markup_urls base_url homepage_content =
     concat (map (\<lambda>pattern.
        concat (map (\<lambda>g. case g of None \<Rightarrow> [] | Some href \<Rightarrow> [normalize_url base_url href])
                    (finditer flags_I pattern homepage_content)))
       privacy_policy_patterns)"

text \<open>One round of the second loop: \<^verbatim>\<open>if url not in policy_urls: policy_urls.append(url)\<close>.\<close>

definition add_common_path :: "string \<Rightarrow> string list \<Rightarrow> string \<Rightarrow> string list" where
  "add_common_path base_url policy_urls path =
     (if normalize_url base_url path \<in> set policy_urls then policy_urls
      else policy_urls @ [normalize_url base_url path])"

text \<open>\<^verbatim>\<open>find_privacy_policy_url\<close>\<close>

definition find_privacy_policy_url :: "string \<Rightarrow> string \<Rightarrow> string list" where
  "find_privacy_policy_url base_url homepage_content =
     foldl (add_common_path base_url) (markup_urls base_url homepage_content)
       common_policy_paths"

subsection \<open>Text of a page\<close>

text \<open>
  \<^verbatim>\<open>extract_text_from_html\<close>. The parse by \<^verbatim>\<open>BeautifulSoup(html, 'html.parser')\<close>, the
  removal of the \<^verbatim>\<open>script\<close>, \<^verbatim>\<open>style\<close>, \<^verbatim>\<open>head\<close> and \<^verbatim>\<open>nav\<close> elements and
  \<^verbatim>\<open>get_text(separator=' ')\<close> are the library's work; together they are the parameter
  \<open>soup_text\<close>. What the repository adds is the whitespace normalisation.
\<close>

definition extract_text_from_html :: "(string \<Rightarrow> string) \<Rightarrow> string \<Rightarrow> string" where
  "extract_text_from_html soup_text html_content =
     (if html_content = [] then [] else squeeze (soup_text html_content))"

subsection \<open>The analysis of a domain\<close>

datatype status = Pending | Analyzed | Error

record result =
  domain :: string
  status :: status
  company_name :: "string option"

text \<open>The truth value of \<^verbatim>\<open>None\<close> or a string.\<close>

definition truthy :: "string option \<Rightarrow> bool" where
  "truthy v = (case v of None \<Rightarrow> False | Some s \<Rightarrow> s \<noteq> [])"

text \<open>\<^verbatim>\<open>[url for url in urls if url]\<close>\<close>

definition keep_truthy :: "string option list \<Rightarrow> string list" where
  "keep_truthy urls = map the (filter truthy urls)"

definition url_variants :: "string \<Rightarrow> string list" where
  "url_variants d = keep_truthy [
     Some (''https://'' @ d),
     Some (''http://'' @ d),
     if \<not> startswith d ''www.'' then Some (''https://www.'' @ d) else None,
     if \<not> startswith d ''www.'' then Some (''http://www.'' @ d) else None]"

text \<open>
  The loop over the URL variants: the first URL whose fetch gives a non-empty body, with
  that body. The call of \<^verbatim>\<open>fetch_url\<close> stands in no \<^verbatim>\<open>try\<close>: an exception that leaves
  \<^verbatim>\<open>fetch_url\<close> leaves the loop.
\<close>

fun fetch_first :: "network \<Rightarrow> string list \<Rightarrow> nat \<Rightarrow> error + ((string \<times> string) option \<times> nat)" where
  "fetch_first net [] t = Inr (None, t)"
| "fetch_first net (url # urls) t =
     (case fetch_url net url default_retries t of
        Inl e \<Rightarrow> Inl e
      | Inr (content, t') \<Rightarrow>
          if truthy content then Inr (Some (url, the content), t')
          else fetch_first net urls t')"

text \<open>The loop over the policy URLs: the first page that yields a name.\<close>

fun check_policy_urls :: "(string \<Rightarrow> string) \<Rightarrow> network \<Rightarrow> string list \<Rightarrow> nat \<Rightarrow> error + string option" where
  "check_policy_urls soup_text net [] t = Inr None"
| "check_policy_urls soup_text net (url # urls) t =
     (case fetch_url net url default_retries t of
        Inl e \<Rightarrow> Inl e
      | Inr (content, t') \<Rightarrow>
          if truthy content then
            (let company_name = extract_company_name_from_text (the content);
                 company_name' =
                   (if \<not> truthy company_name
                    then extract_company_name_from_text
                           (extract_text_from_html soup_text (the content))
                    else company_name)
             in if truthy company_name' then Inr company_name'
                else check_policy_urls soup_text net urls t')
          else check_policy_urls soup_text net urls t')"

text \<open>
  \<^verbatim>\<open>extract_company_name\<close>. The result starts as \<^verbatim>\<open>status: "pending"\<close>,
  \<^verbatim>\<open>company_name: None\<close>, and each return path updates it. The function has no
  \<^verbatim>\<open>try\<close>: an exception that leaves \<^verbatim>\<open>fetch_url\<close> reaches the caller.
\<close>

definition extract_company_name :: "(string \<Rightarrow> string) \<Rightarrow> network \<Rightarrow> string \<Rightarrow> error + result" where
  "extract_company_name soup_text net d =
     (let result = \<lparr>domain = d, status = Pending, company_name = None\<rparr>
      in case fetch_first net (url_variants d) 0 of
           Inl e \<Rightarrow> Inl e
         | Inr (None, t) \<Rightarrow> Inr (result\<lparr>status := Error\<rparr>)
         | Inr (Some (homepage_url, homepage_content), t) \<Rightarrow>
             (let company_name = extract_company_name_from_text homepage_content
              in if truthy company_name
                 then Inr (result\<lparr>status := Analyzed, company_name := company_name\<rparr>)
                 else (case check_policy_urls soup_text net
                              (find_privacy_policy_url homepage_url homepage_content) t of
                         Inl e \<Rightarrow> Inl e
                       | Inr (Some name) \<Rightarrow>
                           Inr (result\<lparr>status := Analyzed, company_name := Some name\<rparr>)
                       | Inr None \<Rightarrow> Inr (result\<lparr>status := Analyzed\<rparr>))))"

section \<open>\<^verbatim>\<open>improved_analyzer.py\<close>: class \<^verbatim>\<open>ImprovedAnalyzer\<close>\<close>

text \<open>The functions of this class carry the prefix \<open>ia_\<close>.\<close>

text \<open>
  The eight patterns of this class are, character for character, patterns of
  \<^verbatim>\<open>CompanyNameExtractor\<close>.
\<close>

definition ia_company_patterns :: "regex list" where
  "ia_company_patterns = [pat_copyright, pat_copyright_plain, pat_operated, pat_developed,
     pat_rights_reserved, pat_contact_about, pat_registered_at, pat_footer]"

definition ia_contact_patterns :: "regex list" where
  "ia_contact_patterns = [href_pattern ''contact'', href_pattern ''about-us'',
     href_pattern ''impressum'', href_pattern ''kontakt'', href_pattern ''imprint'',
     href_pattern ''about'']"

text \<open>
  \<^verbatim>\<open>fetch_url\<close>: one request, no retry; \<^verbatim>\<open>except Exception\<close> turns an exception of
  any class into \<^verbatim>\<open>None\<close>.
\<close>

definition ia_fetch_url :: "network \<Rightarrow> string \<Rightarrow> nat \<Rightarrow> string option \<times> nat" where
  "ia_fetch_url net url t =
     (case net t url of
        Response status_code body \<Rightarrow>
          if status_code = 200 then (Some body, Suc t) else (None, Suc t)
      | ConnectionError \<Rightarrow> (None, Suc t)
      | Timeout \<Rightarrow> (None, Suc t)
      | RequestException \<Rightarrow> (None, Suc t)
      | OtherException \<Rightarrow> (None, Suc t))"

text \<open>\<^verbatim>\<open>str.replace(old, new)\<close> for a non-empty \<open>old\<close>: every occurrence, from the left.\<close>

fun replace :: "string \<Rightarrow> string \<Rightarrow> string \<Rightarrow> string" where
  "replace [] old new = []"
| "replace (x # xs) old new =
     (if startswith (x # xs) old then new @ replace (drop (length old - 1) xs) old new
      else x # replace xs old new)"

definition ia_url_variants :: "string \<Rightarrow> string list" where
  "ia_url_variants d = keep_truthy [
     Some (''https://'' @ d),
     Some (''http://'' @ d),
     \<comment> \<open>If domain starts with www, try without it\<close>
     if startswith d ''www.'' then Some (''https://'' @ replace d ''www.'' []) else None,
     if startswith d ''www.'' then Some (''http://'' @ replace d ''www.'' []) else None,
     \<comment> \<open>If domain doesn't start with www, try with it\<close>
     if \<not> startswith d ''www.'' then Some (''https://www.'' @ d) else None,
     if \<not> startswith d ''www.'' then Some (''http://www.'' @ d) else None]"

fun ia_fetch_first :: "network \<Rightarrow> string list \<Rightarrow> nat \<Rightarrow> (string \<times> string) option" where
  "ia_fetch_first net [] t = None"
| "ia_fetch_first net (url # urls) t =
     (case ia_fetch_url net url t of
        (content, t') \<Rightarrow>
          if truthy content then Some (url, the content)
          else ia_fetch_first net urls t')"

text \<open>\<^verbatim>\<open>fetch_homepage\<close>\<close>

definition ia_fetch_homepage :: "network \<Rightarrow> string \<Rightarrow> (string \<times> string) option" where
  "ia_fetch_homepage net d = ia_fetch_first net (ia_url_variants d) 0"

definition words_to_remove :: "string list" where
  "words_to_remove = [''home'', ''contact'', ''about'', ''us'', ''privacy'', ''policy'',
     ''terms'', ''conditions'', ''cookies'', ''sitemap'', ''menu'']"

text \<open>The pattern \<^verbatim>\<open>r'\b' + word + r'\b'\<close>: the word between two word boundaries.\<close>

definition word_pattern :: "string \<Rightarrow> regex" where
  "word_pattern w = seqs [WordB, lit w, WordB]"

text \<open>\<^verbatim>\<open>re.sub(r'\b' + word + r'\b', '', name, flags=re.IGNORECASE)\<close>\<close>

definition remove_word :: "string \<Rightarrow> string \<Rightarrow> string" where
  "remove_word name w = re_sub flags_I (word_pattern w) [] name"

text \<open>\<^verbatim>\<open>clean_company_name\<close>\<close>

definition ia_clean_company_name :: "string option \<Rightarrow> string option" where
  "ia_clean_company_name name =
     (case name of
        None \<Rightarrow> None
      | Some n \<Rightarrow>
          if n = [] then None
          else (let cleaned = rstrip_chars ''.,;:''
                      (squeeze (foldl remove_word (squeeze (re_sub no_flags tag [] n))
                                  words_to_remove))
                in if length cleaned \<ge> 3 then Some cleaned else None))"

definition ia_pattern_candidates :: "string \<Rightarrow> regex \<Rightarrow> string list" where
  "ia_pattern_candidates text pattern =
     concat (map (\<lambda>g. case g of None \<Rightarrow> []
                      | Some t \<Rightarrow>
                          (case ia_clean_company_name (Some (strip t)) of
                             None \<Rightarrow> []
                           | Some company \<Rightarrow>
                               if company \<noteq> [] \<and> length company \<ge> 3 \<and> list_ex isalpha company
                               then [company] else []))
                 (finditer flags_IS pattern text))"

definition ia_candidates :: "string \<Rightarrow> string list" where
  "ia_candidates text = concat (map (ia_pattern_candidates text) ia_company_patterns)"

text \<open>\<^verbatim>\<open>extract_company_name\<close>\<close>

definition ia_extract_company_name :: "string \<Rightarrow> string option" where
  "ia_extract_company_name text =
     (if text = [] then None
      else if ia_candidates text \<noteq> [] then Some (best_candidate (ia_candidates text))
      else None)"

text \<open>The conversion of a matched \<^verbatim>\<open>href\<close> in \<^verbatim>\<open>find_contact_url\<close>.\<close>

definition ia_absolute :: "string \<Rightarrow> string \<Rightarrow> string" where
  "ia_absolute base_url href =
     (if startswith href ''/''
      then (let base = before_first CHR ''?'' (before_first CHR ''#'' base_url)
            in if endswith base ''/'' then base @ drop 1 href else base @ href)
      else if \<not> (startswith href ''http://'' \<or> startswith href ''https://'')
      then (if endswith base_url ''/'' then base_url @ href else base_url @ ''/'' @ href)
      else href)"

definition ia_contact_urls :: "string \<Rightarrow> string \<Rightarrow> string list" where
  "ia_contact_urls base_url content =
     concat (map (\<lambda>pattern.
        concat (map (\<lambda>g. case g of None \<Rightarrow> [] | Some href \<Rightarrow> [ia_absolute base_url href])
                    (finditer flags_I pattern content)))
       ia_contact_patterns)"

text \<open>\<^verbatim>\<open>find_contact_url\<close>\<close>

definition ia_find_contact_url :: "string \<Rightarrow> string \<Rightarrow> string option" where
  "ia_find_contact_url base_url content =
     (if base_url = [] \<or> content = [] then None
      else case ia_contact_urls base_url content of [] \<Rightarrow> None | url # _ \<Rightarrow> Some url)"

record ia_result = result +
  contact_url :: "string option"

text \<open>\<^verbatim>\<open>analyze_domain\<close>\<close>

definition ia_analyze_domain :: "network \<Rightarrow> string \<Rightarrow> ia_result" where
  "ia_analyze_domain net d =
     (case ia_fetch_homepage net d of
        None \<Rightarrow> \<lparr>domain = d, status = Error, company_name = None, contact_url = None\<rparr>
      | Some (base_url, content) \<Rightarrow>
          \<lparr>domain = d, status = Analyzed, company_name = ia_extract_company_name content,
           contact_url = ia_find_contact_url base_url content\<rparr>)"

section \<open>\<^verbatim>\<open>domain_analyzer.py\<close>: class \<^verbatim>\<open>DomainAnalyzer\<close>\<close>

text \<open>
  The functions of this class carry the prefix \<open>da_\<close>. Its name class is
  \<^verbatim>\<open>[a-zA-Z0-9\s\&\-']\<close>, without the full stop and the comma.
\<close>

definition da_name_class :: atom where
  "da_name_class = In [CRange CHR ''a'' CHR ''z'', CRange CHR ''A'' CHR ''Z'',
     CRange CHR ''0'' CHR ''9'', CSpace, CChar CHR ''&'', CChar CHR ''-'', CChar (CHR 0x27)]"

definition da_entity :: regex where
  "da_entity = Grp (seqs [cap, plus da_name_class, legal_suffix])"

text \<open>Copyright patterns\<close>

definition da_pat_copyright :: regex where
  "da_pat_copyright = seqs [copyright_year, da_entity]"

text \<open>Just copyright year and name\<close>

definition da_pat_copyright_plain :: regex where
  "da_pat_copyright_plain = seqs [copyright_year, Grp (seqs [cap, plus da_name_class])]"

text \<open>Operated by patterns\<close>

definition da_pat_operated :: regex where
  "da_pat_operated = seqs [alts [phrase [''is'', ''owned'', ''and'', ''operated'', ''by''],
     phrase [''trading'', ''as''], lit ''t/a'', phrase [''operated'', ''by'']], ws1, da_entity]"

text \<open>Footer company with All rights reserved\<close>

definition da_pat_rights_reserved :: regex where
  "da_pat_rights_reserved = seqs [da_entity, rights_reserved]"

definition da_company_patterns :: "regex list" where
  "da_company_patterns = [da_pat_copyright, da_pat_copyright_plain, da_pat_operated,
     da_pat_rights_reserved]"

text \<open>
  The loop of \<^verbatim>\<open>fetch_homepage\<close>: the body of the first response with status 200, whatever
  it holds; \<^verbatim>\<open>except Exception\<close> catches an exception of any class and moves on to the
  next URL.
\<close>

fun da_fetch_first :: "network \<Rightarrow> string list \<Rightarrow> nat \<Rightarrow> string option" where
  "da_fetch_first net [] t = None"
| "da_fetch_first net (url # urls) t =
     (case net t url of
        Response status_code body \<Rightarrow>
          if status_code = 200 then Some body else da_fetch_first net urls (Suc t)
      | ConnectionError \<Rightarrow> da_fetch_first net urls (Suc t)
      | Timeout \<Rightarrow> da_fetch_first net urls (Suc t)
      | RequestException \<Rightarrow> da_fetch_first net urls (Suc t)
      | OtherException \<Rightarrow> da_fetch_first net urls (Suc t))"

definition da_fetch_homepage :: "network \<Rightarrow> string \<Rightarrow> string option" where
  "da_fetch_homepage net d = da_fetch_first net (url_variants d) 0"

definition da_pattern_candidates :: "string \<Rightarrow> regex \<Rightarrow> string list" where
  "da_pattern_candidates text pattern =
     concat (map (\<lambda>g. case g of None \<Rightarrow> []
                      | Some t \<Rightarrow> if length (strip t) \<ge> 3 \<and> list_ex isalpha (strip t)
                                  then [strip t] else [])
                 (finditer flags_IS pattern text))"

definition da_candidates :: "string \<Rightarrow> string list" where
  "da_candidates text = concat (map (da_pattern_candidates text) da_company_patterns)"

text \<open>\<^verbatim>\<open>extract_company_name\<close>\<close>

definition da_extract_company_name :: "string \<Rightarrow> string option" where
  "da_extract_company_name text =
     (if text = [] then None
      else if da_candidates text \<noteq> [] then Some (best_candidate (da_candidates text))
      else None)"

text \<open>\<^verbatim>\<open>analyze_domain\<close>\<close>

definition da_analyze_domain :: "network \<Rightarrow> string \<Rightarrow> result" where
  "da_analyze_domain net d =
     (if \<not> truthy (da_fetch_homepage net d)
      then \<lparr>domain = d, status = Error, company_name = None\<rparr>
      else \<lparr>domain = d, status = Analyzed,
            company_name = da_extract_company_name (the (da_fetch_homepage net d))\<rparr>)"

section \<open>Notions used to state the properties\<close>

text \<open>The position of the first occurrence of \<open>x\<close> in a list (its length if there is none).\<close>

definition first_index :: "'a list \<Rightarrow> 'a \<Rightarrow> nat" where
  "first_index xs x = length (takeWhile (\<lambda>y. y \<noteq> x) xs)"

text \<open>
  The outcomes of a request after which \<^verbatim>\<open>fetch_url\<close> goes on to the next attempt: a
  status other than 200, 403 and 404, or an exception of \<^verbatim>\<open>requests\<close> (a refused
  connection, a timeout, any other \<^verbatim>\<open>RequestException\<close>).
\<close>

definition retryable :: "http_result \<Rightarrow> bool" where
  "retryable r =
     (case r of
        Response c b \<Rightarrow> c \<noteq> 200 \<and> c \<noteq> 403 \<and> c \<noteq> 404
      | ConnectionError \<Rightarrow> True
      | Timeout \<Rightarrow> True
      | RequestException \<Rightarrow> True
      | OtherException \<Rightarrow> False)"


definition net_flaky :: network where
  "net_flaky t url =
     (if t = 0 then Response 500 [] else if t = 1 then Timeout
      else if t = 2 then Response 404 [] else Response 200 ''ok'')"

definition net_malformed :: network where
  "net_malformed t url = OtherException"

text \<open>The sentence of the scenario: the copyright sign, then the notice.\<close>

definition acme_text :: string where
  "acme_text = CHR 0xA9 # '' 2023 Acme Widgets Ltd. All rights reserved.''"



text \<open>A page with one link, \<^verbatim>\<open><a href="/privacy-policy">\<close>.\<close>

definition link_text :: string where
  "link_text = ''<a href='' @ [CHR 0x22] @ ''/privacy-policy'' @ [CHR 0x22] @ ''>''"

text \<open>
  What \<^verbatim>\<open>re.sub(r'\s+', ' ', s)\<close> computes, as a recursion on the text: every run of
  whitespace becomes one space.
\<close>

function collapse :: "string \<Rightarrow> string" where
  "collapse [] = []"
| "collapse (x # xs) =
     (if isspace x then CHR '' '' # collapse (dropWhile isspace xs) else x # collapse xs)"
  by pat_completeness auto
termination
  by (relation "measure length") (auto simp: length_dropWhile_le le_imp_less_Suc)

text \<open>
  Shapes of a text: every whitespace character is a space and is followed by a
  character that is not whitespace, or (for \<open>tightish\<close>) by the end of the text.
  A \<open>squeezed\<close> text moreover does not start with a space.
\<close>

fun tightish :: "string \<Rightarrow> bool" where
  "tightish [] = True"
| "tightish (x # xs) =
     (if isspace x then x = CHR '' '' \<and> (xs = [] \<or> \<not> isspace (hd xs)) \<and> tightish xs
      else tightish xs)"

fun tight :: "string \<Rightarrow> bool" where
  "tight [] = True"
| "tight (x # xs) =
     (if isspace x then x = CHR '' '' \<and> xs \<noteq> [] \<and> \<not> isspace (hd xs) \<and> tight xs
      else tight xs)"

definition squeezed :: "string \<Rightarrow> bool" where
  "squeezed s = (tight s \<and> (s = [] \<or> \<not> isspace (hd s)))"

text \<open>\<^verbatim>\<open>str.rstrip()\<close>, as a recursion from the left.\<close>

fun rstrip_rec :: "string \<Rightarrow> string" where
  "rstrip_rec [] = []"
| "rstrip_rec (x # xs) = (if list_all isspace (x # xs) then [] else x # rstrip_rec xs)"

text \<open>
  A text in which the pattern \<^verbatim>\<open><[^>]+>\<close> has no match: every \<^verbatim>\<open><\<close> is followed at once
  by \<^verbatim>\<open>>\<close>, or by no \<^verbatim>\<open>>\<close> at all.
\<close>

fun untagged :: "string \<Rightarrow> bool" where
  "untagged [] = True"
| "untagged (x # xs) =
     ((if x = CHR ''<'' then (case xs of [] \<Rightarrow> True | y # _ \<Rightarrow> y = CHR ''>'' \<or> CHR ''>'' \<notin> set xs)
       else True) \<and> untagged xs)"

text \<open>
  An instance of the parameter \<open>soup_text\<close>, for the example of the character
  reference. On a text without markup in which every \<^verbatim>\<open>&\<close> starts the reference
  \<^verbatim>\<open>&amp;\<close>, the parser of the library hands the text and, for each reference, the
  character \<^verbatim>\<open>&\<close> to the tree builder, which joins them into one string; no element is
  removed, and \<^verbatim>\<open>get_text\<close> returns that string.
\<close>

fun decode_amp :: "string \<Rightarrow> string" where
  "decode_amp [] = []"
| "decode_amp (x # xs) =
     (if startswith (x # xs) ''&amp;'' then CHR ''&'' # decode_amp (drop 4 xs)
      else x # decode_amp xs)"

section \<open>Aggregation: the most frequent candidate, the first seen among equals\<close>

lemma hd_insort_key:
  "hd (insort_key f a ys) = (if ys = [] \<or> f a \<le> f (hd ys) then a else hd ys)"
  by (cases ys) auto

lemma hd_sort_key_first_min:
  "xs \<noteq> [] \<Longrightarrow> \<exists>ys zs. xs = ys @ hd (sort_key f xs) # zs \<and>
     (\<forall>y\<in>set ys. f (hd (sort_key f xs)) < f y) \<and> (\<forall>z\<in>set zs. f (hd (sort_key f xs)) \<le> f z)"
proof (induction xs)
  case Nil then show ?case by simp
next
  case (Cons a xs)
  show ?case
  proof (cases "xs = []")
    case True then show ?thesis by (intro exI[of _ "[]"]) simp
  next
    case False
    define h where "h = hd (sort_key f xs)"
    from Cons.IH[OF False] obtain ys zs where
      xs: "xs = ys @ h # zs" and ys: "\<forall>y\<in>set ys. f h < f y" and zs: "\<forall>z\<in>set zs. f h \<le> f z"
      unfolding h_def by blast
    have "set (sort_key f xs) = set xs" by simp
    then have ne: "sort_key f xs \<noteq> []" using False by fastforce
    have hd: "hd (sort_key f (a # xs)) = (if f a \<le> f h then a else h)"
      using ne by (simp add: hd_insort_key h_def)
    show ?thesis
    proof (cases "f a \<le> f h")
      case True
      have "\<forall>z\<in>set xs. f a \<le> f z"
      proof
        fix z assume "z \<in> set xs"
        then have "z \<in> set ys \<or> z = h \<or> z \<in> set zs" by (subst (asm) xs) auto
        then have "f h \<le> f z" using ys zs by force
        with True show "f a \<le> f z" by simp
      qed
      then have "a # xs = [] @ a # xs \<and> (\<forall>y\<in>set []. f a < f y) \<and> (\<forall>z\<in>set xs. f a \<le> f z)" by simp
      moreover have "hd (sort_key f (a # xs)) = a" using hd True by simp
      ultimately show ?thesis by metis
    next
      case F: False
      have "a # xs = (a # ys) @ h # zs" by (subst xs) simp
      moreover have "\<forall>y\<in>set (a # ys). f h < f y" using ys F by auto
      moreover have "hd (sort_key f (a # xs)) = h" using hd F by simp
      ultimately show ?thesis using zs by metis
    qed
  qed
qed

lemma map_fst_bump:
  "map fst (bump kvs k) = (if k \<in> set (map fst kvs) then map fst kvs else map fst kvs @ [k])"
  by (induction kvs) force+

lemma map_of_bump:
  "map_of (bump kvs k) = (map_of kvs)(k \<mapsto> (case map_of kvs k of None \<Rightarrow> 1 | Some c \<Rightarrow> c + 1))"
  by (induction kvs) (auto simp: fun_eq_iff)

lemma tally_snoc: "tally (cs @ [c]) = bump (tally cs) c"
  by (simp add: tally_def)

lemma tally_keys: "set (map fst (tally cs)) = set cs \<and> distinct (map fst (tally cs))"
  by (induction cs rule: rev_induct) (auto simp: tally_snoc map_fst_bump tally_def)

lemma tally_counts: "k \<in> set cs \<Longrightarrow> map_of (tally cs) k = Some (count_list cs k)"
proof (induction cs rule: rev_induct)
  case Nil then show ?case by simp
next
  case (snoc c cs)
  have keys: "fst ` set (tally cs) = set cs" using tally_keys[of cs] by simp
  have step: "map_of (tally (cs @ [c])) k =
      (if k = c then Some (case map_of (tally cs) c of None \<Rightarrow> 1 | Some n \<Rightarrow> n + 1)
       else map_of (tally cs) k)"
    by (simp only: tally_snoc map_of_bump fun_upd_apply)
  have cnt: "count_list (cs @ [c]) k = count_list cs k + (if k = c then 1 else 0)"
    by simp
  show ?case
  proof (cases "k = c")
    case True
    show ?thesis
    proof (cases "c \<in> set cs")
      case cin: True
      then have "map_of (tally cs) c = Some (count_list cs c)" using snoc.IH True by simp
      then show ?thesis unfolding step cnt using True by simp
    next
      case False
      then have "map_of (tally cs) c = None" using keys by (simp add: map_of_eq_None_iff)
      moreover have "count_list cs c = 0" using False by (simp add: count_list_0_iff)
      ultimately show ?thesis unfolding step cnt using True by simp
    qed
  next
    case False
    then have "k \<in> set cs" using snoc.prems by simp
    then have "map_of (tally cs) k = Some (count_list cs k)" by (rule snoc.IH)
    then show ?thesis unfolding step cnt using False by simp
  qed
qed

lemma first_index_append:
  "first_index (xs @ ys) x = (if x \<in> set xs then first_index xs x else length xs + first_index ys x)"
  by (induction xs) (auto simp: first_index_def)

lemma first_index_less: "x \<in> set xs \<Longrightarrow> first_index xs x < length xs"
  by (induction xs) (auto simp: first_index_def)

lemma first_index_self_single: "first_index [c] c = 0"
  by (simp add: first_index_def)

lemma tally_order:
  "x \<in> set cs \<Longrightarrow> y \<in> set cs \<Longrightarrow>
   first_index (map fst (tally cs)) x < first_index (map fst (tally cs)) y
   \<longleftrightarrow> first_index cs x < first_index cs y"
proof (induction cs rule: rev_induct)
  case Nil then show ?case by simp
next
  case (snoc c cs)
  define K where "K = map fst (tally cs)"
  have keys: "set K = set cs" unfolding K_def using tally_keys[of cs] by simp
  have IH: "x \<in> set cs \<Longrightarrow> y \<in> set cs \<Longrightarrow>
     first_index K x < first_index K y \<longleftrightarrow> first_index cs x < first_index cs y"
    unfolding K_def by (rule snoc.IH)
  show ?case
  proof (cases "c \<in> set cs")
    case True
    then have m: "map fst (tally (cs @ [c])) = K"
      using keys unfolding K_def by (simp add: tally_snoc map_fst_bump)
    have xy: "x \<in> set cs" "y \<in> set cs" using snoc.prems True by auto
    show ?thesis unfolding m using IH[OF xy] xy by (simp add: first_index_append)
  next
    case False
    then have m: "map fst (tally (cs @ [c])) = K @ [c]"
      using keys unfolding K_def by (simp add: tally_snoc map_fst_bump)
    have cK: "c \<notin> set K" using False keys by simp
    show ?thesis
    proof (cases "x \<in> set cs")
      case xin: True
      show ?thesis
      proof (cases "y \<in> set cs")
        case True
        show ?thesis unfolding m using IH[OF xin True] xin True keys
          by (simp add: first_index_append)
      next
        case yout: False
        then have y: "y = c" using snoc.prems by simp
        have "first_index (K @ [c]) x < first_index (K @ [c]) c"
          using first_index_less[of x K] xin keys cK
          by (simp add: first_index_append first_index_self_single)
        moreover have "first_index (cs @ [c]) x < first_index (cs @ [c]) c"
          using first_index_less[of x cs] xin False
          by (simp add: first_index_append first_index_self_single)
        ultimately show ?thesis unfolding m y by simp
      qed
    next
      case xout: False
      then have x: "x = c" using snoc.prems by simp
      show ?thesis
      proof (cases "y \<in> set cs")
        case True
        have "\<not> first_index (K @ [c]) c < first_index (K @ [c]) y"
          using first_index_less[of y K] True keys cK
          by (simp add: first_index_append first_index_self_single)
        moreover have "\<not> first_index (cs @ [c]) c < first_index (cs @ [c]) y"
          using first_index_less[of y cs] True False
          by (simp add: first_index_append first_index_self_single)
        ultimately show ?thesis unfolding m x by simp
      next
        case False
        then have "y = c" using snoc.prems by simp
        with x show ?thesis by simp
      qed
    qed
  qed
qed

lemma first_index_distinct_split:
  "a \<notin> set ys \<Longrightarrow> first_index (ys @ a # zs) a = length ys"
  by (simp add: first_index_append) (simp add: first_index_def)

lemma first_index_after:
  "c \<notin> set ys \<Longrightarrow> c \<noteq> a \<Longrightarrow> length ys < first_index (ys @ a # zs) c"
  by (simp add: first_index_append) (simp add: first_index_def)

lemma best_candidate_spec:
  assumes "cs \<noteq> []"
  shows "best_candidate cs \<in> set cs \<and>
    (\<forall>c\<in>set cs. count_list cs c \<le> count_list cs (best_candidate cs)) \<and>
    (\<forall>c\<in>set cs. c \<noteq> best_candidate cs \<and> count_list cs c = count_list cs (best_candidate cs)
        \<longrightarrow> first_index cs (best_candidate cs) < first_index cs c)"
proof -
  define T where "T = tally cs"
  define f where "f = (\<lambda>kv :: 'a \<times> nat. - int (snd kv))"
  define h where "h = hd (sort_key f T)"
  define b where "b = fst h"
  have b: "best_candidate cs = b"
    by (simp add: best_candidate_def sorted_by_count_def T_def f_def h_def b_def)
  have keys: "set (map fst T) = set cs" and dist: "distinct (map fst T)"
    unfolding T_def using tally_keys[of cs] by simp_all
  have Tne: "T \<noteq> []" using keys assms by auto
  from hd_sort_key_first_min[OF Tne, of f] obtain ys zs where
    T: "T = ys @ h # zs" and ys: "\<forall>y\<in>set ys. f h < f y" and zs: "\<forall>z\<in>set zs. f h \<le> f z"
    unfolding h_def by blast
  have cnt: "\<And>k n. (k, n) \<in> set T \<Longrightarrow> k \<in> set cs \<and> n = count_list cs k"
  proof -
    fix k n assume kn: "(k, n) \<in> set T"
    then have kin: "k \<in> set cs" using keys by force
    have "map_of T k = Some n" using kn dist by simp
    moreover have "map_of T k = Some (count_list cs k)" unfolding T_def using kin by (rule tally_counts)
    ultimately show "k \<in> set cs \<and> n = count_list cs k" using kin by simp
  qed
  have hT: "h \<in> set T" by (subst T) simp
  have hh: "h = (b, count_list cs b)" and bin: "b \<in> set cs"
    using cnt[of "fst h" "snd h"] hT by (simp_all add: b_def prod_eq_iff)
  have mem: "\<And>c. c \<in> set cs \<Longrightarrow> (c, count_list cs c) \<in> set T"
  proof -
    fix c assume "c \<in> set cs"
    then have "c \<in> fst ` set T" using keys by simp
    then obtain n where "(c, n) \<in> set T" by force
    with cnt[of c n] show "(c, count_list cs c) \<in> set T" by simp
  qed
  have max: "\<forall>c\<in>set cs. count_list cs c \<le> count_list cs b"
  proof
    fix c assume c: "c \<in> set cs"
    have "(c, count_list cs c) \<in> set ys \<or> (c, count_list cs c) = h \<or> (c, count_list cs c) \<in> set zs"
      using mem[OF c] by (subst (asm) T) auto
    then have "f h \<le> f (c, count_list cs c)" using ys zs by force
    then show "count_list cs c \<le> count_list cs b" by (simp add: f_def hh)
  qed
  have tie: "\<forall>c\<in>set cs. c \<noteq> b \<and> count_list cs c = count_list cs b
       \<longrightarrow> first_index cs b < first_index cs c"
  proof (intro ballI impI)
    fix c assume c: "c \<in> set cs" and cb: "c \<noteq> b \<and> count_list cs c = count_list cs b"
    have fe: "f (c, count_list cs c) = f h" using cb by (simp add: f_def hh)
    have "(c, count_list cs c) \<in> set ys \<or> (c, count_list cs c) = h \<or> (c, count_list cs c) \<in> set zs"
      using mem[OF c] by (subst (asm) T) auto
    moreover have "(c, count_list cs c) \<notin> set ys" using ys fe by force
    moreover have "(c, count_list cs c) \<noteq> h" using cb hh by simp
    ultimately have cz: "(c, count_list cs c) \<in> set zs" by blast
    have mT: "map fst T = map fst ys @ b # map fst zs" by (subst T) (simp add: b_def)
    have bys: "b \<notin> set (map fst ys)" and cys: "c \<notin> set (map fst ys)"
    proof -
      show "b \<notin> set (map fst ys)" using dist unfolding mT by auto
      have "c \<in> set (map fst zs)" using cz by force
      then show "c \<notin> set (map fst ys)" using dist unfolding mT by auto
    qed
    have "first_index (map fst T) b = length ys"
      unfolding mT using bys first_index_distinct_split[of b "map fst ys" "map fst zs"] by simp
    moreover have "first_index (map fst T) c > length ys"
      unfolding mT using cys cb first_index_after[of c "map fst ys" b "map fst zs"] by simp
    ultimately have "first_index (map fst (tally cs)) b < first_index (map fst (tally cs)) c"
      unfolding T_def by simp
    then show "first_index cs b < first_index cs c" using tally_order[OF bin c] by simp
  qed
  show ?thesis unfolding b using bin max tie by blast
qed

text \<open>
  C7. The candidate chosen by the aggregation occurs in the list, no candidate occurs more
  often, and every other candidate that occurs as often has its first occurrence later in
  the scan order. \<^verbatim>\<open>CompanyNameExtractor\<close> applies the aggregation to the normalised
  candidates, \<^verbatim>\<open>ImprovedAnalyzer\<close> and \<^verbatim>\<open>DomainAnalyzer\<close> to the candidates themselves.
\<close>

theorem tie_break_first_seen:
  assumes "cs \<noteq> []"
  shows "best_candidate cs \<in> set cs \<and>
    (\<forall>c\<in>set cs. count_list cs c \<le> count_list cs (best_candidate cs)) \<and>
    (\<forall>c\<in>set cs. c \<noteq> best_candidate cs \<and> count_list cs c = count_list cs (best_candidate cs)
        \<longrightarrow> first_index cs (best_candidate cs) < first_index cs c)"
  using assms by (rule best_candidate_spec)

theorem tie_break_first_seen_witness:
  "[''b'', ''a'', ''b'', ''a'', ''c''] \<noteq> [] \<and>
   best_candidate [''b'', ''a'', ''b'', ''a'', ''c''] = ''b'' \<and>
   count_list [''b'', ''a'', ''b'', ''a'', ''c''] ''a'' = count_list [''b'', ''a'', ''b'', ''a'', ''c''] ''b'' \<and>
   first_index [''b'', ''a'', ''b'', ''a'', ''c''] (best_candidate [''b'', ''a'', ''b'', ''a'', ''c''])
     < first_index [''b'', ''a'', ''b'', ''a'', ''c''] ''a''"
proof -
  have e: "best_candidate [''b'', ''a'', ''b'', ''a'', ''c''] = ''b''"
    by (simp add: best_candidate_def sorted_by_count_def tally_def)
  show ?thesis
    using tie_break_first_seen [of "[''b'', ''a'', ''b'', ''a'', ''c'']"] e by simp
qed

section \<open>Fetching\<close>

lemma fetch_attempts_retry:
  "\<forall>j<i. retryable (net (t + j) url) \<Longrightarrow> i \<le> n \<Longrightarrow>
   fetch_attempts net url n t = fetch_attempts net url (n - i) (t + i)"
proof (induction i arbitrary: n t)
  case 0 then show ?case by simp
next
  case (Suc i)
  then obtain m where n: "n = Suc m" by (cases n) auto
  from Suc.prems have r0: "retryable (net t url)" by (metis add.right_neutral zero_less_Suc)
  have step: "fetch_attempts net url (Suc m) t = fetch_attempts net url m (Suc t)"
    using r0 by (auto simp: retryable_def split: http_result.splits)
  have "\<forall>j<i. retryable (net (Suc t + j) url)" using Suc.prems(1) by (metis Suc_less_eq add_Suc_shift)
  moreover have "i \<le> m" using Suc.prems n by simp
  ultimately have "fetch_attempts net url m (Suc t) = fetch_attempts net url (m - i) (Suc t + i)"
    by (rule Suc.IH)
  with step n show ?case by simp
qed



lemma da_fetch_first_no200:
  "(\<And>t url body. url \<in> set urls \<Longrightarrow> net t url \<noteq> Response 200 body) \<Longrightarrow>
   da_fetch_first net urls t = None"
  by (induction urls arbitrary: t) (auto split: http_result.splits)

text \<open>
  C8. Let the first \<open>i\<close> attempts on a URL end in a retryable outcome. If attempt \<open>i\<close>
  is within the retry count and answers 200, the body is returned at once, after
  \<open>i + 1\<close> requests; if it answers 403 or 404, the fetch fails after \<open>i + 1\<close> requests,
  without another attempt; if all \<open>max_retries\<close> attempts are retryable, the fetch fails
  after exactly that many requests. The loop over the candidate URLs, which fetches with
  the default retry count, stops at a URL that answers 200 with a page; when the fetch
  of a URL fails, by a 403 or 404 or after the last retry, the loop goes on with the
  next URL: the next request is sent to that URL, and if it answers 200 with a page, the
  loop returns that URL and its page.
\<close>

theorem fetch_url_retry_policy:
  assumes "\<forall>j<i. retryable (net (t + j) url)"
  shows "(i < n \<and> net (t + i) url = Response 200 body
            \<longrightarrow> fetch_url net url n t = Inr (Some body, t + i + 1)) \<and>
         (i < n \<and> (net (t + i) url = Response 403 body \<or> net (t + i) url = Response 404 body)
            \<longrightarrow> fetch_url net url n t = Inr (None, t + i + 1)) \<and>
         (i = n \<longrightarrow> fetch_url net url n t = Inr (None, t + n)) \<and>
         (i < default_retries \<and> net (t + i) url = Response 200 body \<and> body \<noteq> []
            \<longrightarrow> fetch_first net (url # urls) t = Inr (Some (url, body), t + i + 1)) \<and>
         (i < default_retries
            \<and> (net (t + i) url = Response 403 body \<or> net (t + i) url = Response 404 body)
            \<longrightarrow> fetch_first net (url # urls) t = fetch_first net urls (t + i + 1)) \<and>
         (i = default_retries
            \<longrightarrow> fetch_first net (url # urls) t = fetch_first net urls (t + default_retries)) \<and>
         (i < default_retries
            \<and> (net (t + i) url = Response 403 body \<or> net (t + i) url = Response 404 body)
            \<and> net (t + i + 1) next_url = Response 200 page \<and> page \<noteq> []
            \<longrightarrow> fetch_first net (url # next_url # urls) t
                = Inr (Some (next_url, page), t + i + 2)) \<and>
         (i = default_retries
            \<and> net (t + default_retries) next_url = Response 200 page \<and> page \<noteq> []
            \<longrightarrow> fetch_first net (url # next_url # urls) t
                = Inr (Some (next_url, page), t + default_retries + 1))"
proof -
  have r: "\<And>n. i \<le> n \<Longrightarrow> fetch_attempts net url n t = fetch_attempts net url (n - i) (t + i)"
    using assms by (rule fetch_attempts_retry)
  have ok: "\<And>n. i < n \<Longrightarrow> net (t + i) url = Response 200 body
            \<Longrightarrow> fetch_url net url n t = Inr (Some body, t + i + 1)"
  proof -
    fix n assume h: "i < n" "net (t + i) url = Response 200 body"
    then obtain m where m: "n - i = Suc m" by (cases "n - i") auto
    show "fetch_url net url n t = Inr (Some body, t + i + 1)"
      unfolding fetch_url_def using r[of n] h m by simp
  qed
  have stop: "\<And>n. i < n
            \<Longrightarrow> net (t + i) url = Response 403 body \<or> net (t + i) url = Response 404 body
            \<Longrightarrow> fetch_url net url n t = Inr (None, t + i + 1)"
  proof -
    fix n assume h: "i < n"
      "net (t + i) url = Response 403 body \<or> net (t + i) url = Response 404 body"
    then obtain m where m: "n - i = Suc m" by (cases "n - i") auto
    show "fetch_url net url n t = Inr (None, t + i + 1)"
      unfolding fetch_url_def using r[of n] h m by auto
  qed
  have spent: "\<And>n. i = n \<Longrightarrow> fetch_url net url n t = Inr (None, t + n)"
    unfolding fetch_url_def using r by auto
  have hit: "\<And>u us s. net s u = Response 200 page \<Longrightarrow> page \<noteq> []
            \<Longrightarrow> fetch_first net (u # us) s = Inr (Some (u, page), s + 1)"
    by (simp add: fetch_url_def default_retries_def numeral_3_eq_3 truthy_def)
  have a: "i < n \<and> net (t + i) url = Response 200 body
            \<longrightarrow> fetch_url net url n t = Inr (Some body, t + i + 1)"
    using ok by blast
  have b: "i < n \<and> (net (t + i) url = Response 403 body \<or> net (t + i) url = Response 404 body)
            \<longrightarrow> fetch_url net url n t = Inr (None, t + i + 1)"
    using stop by blast
  have c: "i = n \<longrightarrow> fetch_url net url n t = Inr (None, t + n)"
    using spent by blast
  have d: "i < default_retries \<and> net (t + i) url = Response 200 body \<and> body \<noteq> []
            \<longrightarrow> fetch_first net (url # urls) t = Inr (Some (url, body), t + i + 1)"
    using ok[of default_retries] by (auto simp: truthy_def)
  have e: "i < default_retries
            \<and> (net (t + i) url = Response 403 body \<or> net (t + i) url = Response 404 body)
            \<longrightarrow> fetch_first net (url # urls) t = fetch_first net urls (t + i + 1)"
    using stop[of default_retries] by (auto simp: truthy_def)
  have f: "i = default_retries
            \<longrightarrow> fetch_first net (url # urls) t = fetch_first net urls (t + default_retries)"
    using spent[of default_retries] by (auto simp: truthy_def)
  have g: "i < default_retries
            \<and> (net (t + i) url = Response 403 body \<or> net (t + i) url = Response 404 body)
            \<and> net (t + i + 1) next_url = Response 200 page \<and> page \<noteq> []
            \<longrightarrow> fetch_first net (url # next_url # urls) t
                = Inr (Some (next_url, page), t + i + 2)"
  proof
    assume h: "i < default_retries
            \<and> (net (t + i) url = Response 403 body \<or> net (t + i) url = Response 404 body)
            \<and> net (t + i + 1) next_url = Response 200 page \<and> page \<noteq> []"
    then have "fetch_url net url default_retries t = Inr (None, t + i + 1)"
      using stop[of default_retries] by blast
    then have "fetch_first net (url # next_url # urls) t
             = fetch_first net (next_url # urls) (t + i + 1)"
      by (simp add: truthy_def)
    also have "\<dots> = Inr (Some (next_url, page), t + i + 1 + 1)"
      using h by (intro hit) simp_all
    finally show "fetch_first net (url # next_url # urls) t
                = Inr (Some (next_url, page), t + i + 2)" by simp
  qed
  have k: "i = default_retries
            \<and> net (t + default_retries) next_url = Response 200 page \<and> page \<noteq> []
            \<longrightarrow> fetch_first net (url # next_url # urls) t
                = Inr (Some (next_url, page), t + default_retries + 1)"
  proof
    assume h: "i = default_retries
            \<and> net (t + default_retries) next_url = Response 200 page \<and> page \<noteq> []"
    then have "fetch_url net url default_retries t = Inr (None, t + default_retries)"
      using spent[of default_retries] by blast
    then have "fetch_first net (url # next_url # urls) t
             = fetch_first net (next_url # urls) (t + default_retries)"
      by (simp add: truthy_def)
    also have "\<dots> = Inr (Some (next_url, page), t + default_retries + 1)"
      using h by (intro hit) simp_all
    finally show "fetch_first net (url # next_url # urls) t
                = Inr (Some (next_url, page), t + default_retries + 1)" .
  qed
  from a b c d e f g k show ?thesis by blast
qed

theorem fetch_url_retry_policy_witness:
  "retryable (net_flaky 0 ''u'') \<and> retryable (net_flaky 1 ''u'') \<and>
   net_flaky 2 ''u'' = Response 404 [] \<and> net_flaky 3 ''v'' = Response 200 ''ok'' \<and>
   fetch_url net_flaky ''u'' 3 0 = Inr (None, 3) \<and>
   fetch_first net_flaky [''u'', ''v'', ''w''] 0 = Inr (Some (''v'', ''ok''), 4)"
proof -
  have h: "\<forall>j<2. retryable (net_flaky (0 + j) ''u'')"
    by (simp add: net_flaky_def retryable_def)
  show ?thesis
    using fetch_url_retry_policy [of 2 net_flaky 0 "''u''" 3 "[]" "[''w'']" "''v''" "''ok''"] h
    by (simp add: net_flaky_def retryable_def default_retries_def del: fetch_first.simps)
qed

section \<open>The result of an analysis\<close>


lemma da_unreachable_gives_error:
  assumes "\<And>t url body. url \<in> set (url_variants d) \<Longrightarrow> net t url \<noteq> Response 200 body"
  shows "da_analyze_domain net d = \<lparr>domain = d, status = Error, company_name = None\<rparr>"
proof -
  have "da_fetch_first net (url_variants d) 0 = None" using assms by (rule da_fetch_first_no200)
  then show ?thesis by (simp add: da_analyze_domain_def da_fetch_homepage_def truthy_def)
qed

lemma ia_fetch_first_no200:
  "(\<And>t url body. url \<in> set urls \<Longrightarrow> net t url \<noteq> Response 200 body) \<Longrightarrow>
   ia_fetch_first net urls t = None"
  by (induction urls arbitrary: t)
     (auto simp: ia_fetch_url_def truthy_def split: http_result.splits)

lemma ia_unreachable_gives_error:
  assumes "\<And>t url body. url \<in> set (ia_url_variants d) \<Longrightarrow> net t url \<noteq> Response 200 body"
  shows "ia_analyze_domain net d
           = \<lparr>domain = d, status = Error, company_name = None, contact_url = None\<rparr>"
proof -
  have "ia_fetch_first net (ia_url_variants d) 0 = None"
    using assms by (rule ia_fetch_first_no200)
  then show ?thesis by (simp add: ia_analyze_domain_def ia_fetch_homepage_def)
qed

text \<open>
  C3. For the domain \<^verbatim>\<open>a..b.com\<close> no URL variant returns a 200 response: every request
  ends with an exception of a class outside \<^verbatim>\<open>requests.exceptions\<close>.
  \<^verbatim>\<open>CompanyNameExtractor.extract_company_name\<close> returns no result: the exception of the
  first request leaves \<^verbatim>\<open>fetch_url\<close> and reaches the caller.
  \<^verbatim>\<open>DomainAnalyzer.analyze_domain\<close> and \<^verbatim>\<open>ImprovedAnalyzer.analyze_domain\<close> return the
  result with status \<^verbatim>\<open>error\<close> and no company name.
\<close>

theorem uncaught_exception_reaches_caller:
  "extract_company_name (\<lambda>h. h) net_malformed ''a..b.com'' = Inl Uncaught \<and>
   da_analyze_domain net_malformed ''a..b.com''
     = \<lparr>domain = ''a..b.com'', status = Error, company_name = None\<rparr> \<and>
   ia_analyze_domain net_malformed ''a..b.com''
     = \<lparr>domain = ''a..b.com'', status = Error, company_name = None, contact_url = None\<rparr>"
proof -
  have a: "extract_company_name (\<lambda>h. h) net_malformed ''a..b.com'' = Inl Uncaught"
    by (simp add: extract_company_name_def url_variants_def keep_truthy_def truthy_def
        startswith_def fetch_url_def default_retries_def numeral_3_eq_3 net_malformed_def)
  have b: "da_analyze_domain net_malformed ''a..b.com''
     = \<lparr>domain = ''a..b.com'', status = Error, company_name = None\<rparr>"
    by (rule da_unreachable_gives_error) (simp add: net_malformed_def)
  have c: "ia_analyze_domain net_malformed ''a..b.com''
     = \<lparr>domain = ''a..b.com'', status = Error, company_name = None, contact_url = None\<rparr>"
    by (rule ia_unreachable_gives_error) (simp add: net_malformed_def)
  from a b c show ?thesis by simp
qed







section \<open>Evaluating the matcher on a given text\<close>

text \<open>
  The values of the character functions on the characters of the examples, and equations
  that unfold a pattern piece by piece as the matcher reaches it: with them the simplifier
  runs the matcher on a concrete text.
\<close>

lemma code_table:
  "code (CHR 0x09) = 9" "code (CHR 0x0A) = 10" "code (CHR 0x0D) = 13"
  "code (CHR '' '') = 32" "code (CHR ''!'') = 33" "code (CHR 0x22) = 34"
  "code (CHR ''#'') = 35" "code (CHR ''$'') = 36" "code (CHR ''%'') = 37"
  "code (CHR ''&'') = 38" "code (CHR 0x27) = 39" "code (CHR ''('') = 40"
  "code (CHR '')'') = 41" "code (CHR ''*'') = 42" "code (CHR ''+'') = 43"
  "code (CHR '','') = 44" "code (CHR ''-'') = 45" "code (CHR ''.'') = 46"
  "code (CHR ''/'') = 47" "code (CHR ''0'') = 48" "code (CHR ''1'') = 49"
  "code (CHR ''2'') = 50" "code (CHR ''3'') = 51" "code (CHR ''4'') = 52"
  "code (CHR ''5'') = 53" "code (CHR ''6'') = 54" "code (CHR ''7'') = 55"
  "code (CHR ''8'') = 56" "code (CHR ''9'') = 57" "code (CHR '':'') = 58"
  "code (CHR '';'') = 59" "code (CHR ''<'') = 60" "code (CHR ''='') = 61"
  "code (CHR ''>'') = 62" "code (CHR ''?'') = 63" "code (CHR ''@'') = 64"
  "code (CHR ''A'') = 65" "code (CHR ''B'') = 66" "code (CHR ''C'') = 67"
  "code (CHR ''D'') = 68" "code (CHR ''E'') = 69" "code (CHR ''F'') = 70"
  "code (CHR ''G'') = 71" "code (CHR ''H'') = 72" "code (CHR ''I'') = 73"
  "code (CHR ''J'') = 74" "code (CHR ''K'') = 75" "code (CHR ''L'') = 76"
  "code (CHR ''M'') = 77" "code (CHR ''N'') = 78" "code (CHR ''O'') = 79"
  "code (CHR ''P'') = 80" "code (CHR ''Q'') = 81" "code (CHR ''R'') = 82"
  "code (CHR ''S'') = 83" "code (CHR ''T'') = 84" "code (CHR ''U'') = 85"
  "code (CHR ''V'') = 86" "code (CHR ''W'') = 87" "code (CHR ''X'') = 88"
  "code (CHR ''Y'') = 89" "code (CHR ''Z'') = 90" "code (CHR ''['') = 91"
  "code (CHR 0x5C) = 92" "code (CHR '']'') = 93" "code (CHR ''^'') = 94"
  "code (CHR ''_'') = 95" "code (CHR 0x60) = 96" "code (CHR ''a'') = 97"
  "code (CHR ''b'') = 98" "code (CHR ''c'') = 99" "code (CHR ''d'') = 100"
  "code (CHR ''e'') = 101" "code (CHR ''f'') = 102" "code (CHR ''g'') = 103"
  "code (CHR ''h'') = 104" "code (CHR ''i'') = 105" "code (CHR ''j'') = 106"
  "code (CHR ''k'') = 107" "code (CHR ''l'') = 108" "code (CHR ''m'') = 109"
  "code (CHR ''n'') = 110" "code (CHR ''o'') = 111" "code (CHR ''p'') = 112"
  "code (CHR ''q'') = 113" "code (CHR ''r'') = 114" "code (CHR ''s'') = 115"
  "code (CHR ''t'') = 116" "code (CHR ''u'') = 117" "code (CHR ''v'') = 118"
  "code (CHR ''w'') = 119" "code (CHR ''x'') = 120" "code (CHR ''y'') = 121"
  "code (CHR ''z'') = 122" "code (CHR ''{'') = 123" "code (CHR ''|'') = 124"
  "code (CHR ''}'') = 125" "code (CHR ''~'') = 126" "code (CHR 0xA9) = 169"
  by (simp_all add: code_def)

lemma lower_char_table:
  "lower_char (CHR 0x09) = CHR 0x09" "lower_char (CHR 0x0A) = CHR 0x0A" "lower_char (CHR 0x0D) = CHR 0x0D"
  "lower_char (CHR '' '') = CHR '' ''" "lower_char (CHR ''!'') = CHR ''!''" "lower_char (CHR 0x22) = CHR 0x22"
  "lower_char (CHR ''#'') = CHR ''#''" "lower_char (CHR ''$'') = CHR ''$''" "lower_char (CHR ''%'') = CHR ''%''"
  "lower_char (CHR ''&'') = CHR ''&''" "lower_char (CHR 0x27) = CHR 0x27" "lower_char (CHR ''('') = CHR ''(''"
  "lower_char (CHR '')'') = CHR '')''" "lower_char (CHR ''*'') = CHR ''*''" "lower_char (CHR ''+'') = CHR ''+''"
  "lower_char (CHR '','') = CHR '',''" "lower_char (CHR ''-'') = CHR ''-''" "lower_char (CHR ''.'') = CHR ''.''"
  "lower_char (CHR ''/'') = CHR ''/''" "lower_char (CHR ''0'') = CHR ''0''" "lower_char (CHR ''1'') = CHR ''1''"
  "lower_char (CHR ''2'') = CHR ''2''" "lower_char (CHR ''3'') = CHR ''3''" "lower_char (CHR ''4'') = CHR ''4''"
  "lower_char (CHR ''5'') = CHR ''5''" "lower_char (CHR ''6'') = CHR ''6''" "lower_char (CHR ''7'') = CHR ''7''"
  "lower_char (CHR ''8'') = CHR ''8''" "lower_char (CHR ''9'') = CHR ''9''" "lower_char (CHR '':'') = CHR '':''"
  "lower_char (CHR '';'') = CHR '';''" "lower_char (CHR ''<'') = CHR ''<''" "lower_char (CHR ''='') = CHR ''=''"
  "lower_char (CHR ''>'') = CHR ''>''" "lower_char (CHR ''?'') = CHR ''?''" "lower_char (CHR ''@'') = CHR ''@''"
  "lower_char (CHR ''A'') = CHR ''a''" "lower_char (CHR ''B'') = CHR ''b''" "lower_char (CHR ''C'') = CHR ''c''"
  "lower_char (CHR ''D'') = CHR ''d''" "lower_char (CHR ''E'') = CHR ''e''" "lower_char (CHR ''F'') = CHR ''f''"
  "lower_char (CHR ''G'') = CHR ''g''" "lower_char (CHR ''H'') = CHR ''h''" "lower_char (CHR ''I'') = CHR ''i''"
  "lower_char (CHR ''J'') = CHR ''j''" "lower_char (CHR ''K'') = CHR ''k''" "lower_char (CHR ''L'') = CHR ''l''"
  "lower_char (CHR ''M'') = CHR ''m''" "lower_char (CHR ''N'') = CHR ''n''" "lower_char (CHR ''O'') = CHR ''o''"
  "lower_char (CHR ''P'') = CHR ''p''" "lower_char (CHR ''Q'') = CHR ''q''" "lower_char (CHR ''R'') = CHR ''r''"
  "lower_char (CHR ''S'') = CHR ''s''" "lower_char (CHR ''T'') = CHR ''t''" "lower_char (CHR ''U'') = CHR ''u''"
  "lower_char (CHR ''V'') = CHR ''v''" "lower_char (CHR ''W'') = CHR ''w''" "lower_char (CHR ''X'') = CHR ''x''"
  "lower_char (CHR ''Y'') = CHR ''y''" "lower_char (CHR ''Z'') = CHR ''z''" "lower_char (CHR ''['') = CHR ''[''"
  "lower_char (CHR 0x5C) = CHR 0x5C" "lower_char (CHR '']'') = CHR '']''" "lower_char (CHR ''^'') = CHR ''^''"
  "lower_char (CHR ''_'') = CHR ''_''" "lower_char (CHR 0x60) = CHR 0x60" "lower_char (CHR ''a'') = CHR ''a''"
  "lower_char (CHR ''b'') = CHR ''b''" "lower_char (CHR ''c'') = CHR ''c''" "lower_char (CHR ''d'') = CHR ''d''"
  "lower_char (CHR ''e'') = CHR ''e''" "lower_char (CHR ''f'') = CHR ''f''" "lower_char (CHR ''g'') = CHR ''g''"
  "lower_char (CHR ''h'') = CHR ''h''" "lower_char (CHR ''i'') = CHR ''i''" "lower_char (CHR ''j'') = CHR ''j''"
  "lower_char (CHR ''k'') = CHR ''k''" "lower_char (CHR ''l'') = CHR ''l''" "lower_char (CHR ''m'') = CHR ''m''"
  "lower_char (CHR ''n'') = CHR ''n''" "lower_char (CHR ''o'') = CHR ''o''" "lower_char (CHR ''p'') = CHR ''p''"
  "lower_char (CHR ''q'') = CHR ''q''" "lower_char (CHR ''r'') = CHR ''r''" "lower_char (CHR ''s'') = CHR ''s''"
  "lower_char (CHR ''t'') = CHR ''t''" "lower_char (CHR ''u'') = CHR ''u''" "lower_char (CHR ''v'') = CHR ''v''"
  "lower_char (CHR ''w'') = CHR ''w''" "lower_char (CHR ''x'') = CHR ''x''" "lower_char (CHR ''y'') = CHR ''y''"
  "lower_char (CHR ''z'') = CHR ''z''" "lower_char (CHR ''{'') = CHR ''{''" "lower_char (CHR ''|'') = CHR ''|''"
  "lower_char (CHR ''}'') = CHR ''}''" "lower_char (CHR ''~'') = CHR ''~''" "lower_char (CHR 0xA9) = CHR 0xA9"
  by (simp_all add: lower_char_def has_upper_def between_def code_def char_of_def bit_iff_odd)

lemma upper_char_table:
  "upper_char (CHR 0x09) = CHR 0x09" "upper_char (CHR 0x0A) = CHR 0x0A" "upper_char (CHR 0x0D) = CHR 0x0D"
  "upper_char (CHR '' '') = CHR '' ''" "upper_char (CHR ''!'') = CHR ''!''" "upper_char (CHR 0x22) = CHR 0x22"
  "upper_char (CHR ''#'') = CHR ''#''" "upper_char (CHR ''$'') = CHR ''$''" "upper_char (CHR ''%'') = CHR ''%''"
  "upper_char (CHR ''&'') = CHR ''&''" "upper_char (CHR 0x27) = CHR 0x27" "upper_char (CHR ''('') = CHR ''(''"
  "upper_char (CHR '')'') = CHR '')''" "upper_char (CHR ''*'') = CHR ''*''" "upper_char (CHR ''+'') = CHR ''+''"
  "upper_char (CHR '','') = CHR '',''" "upper_char (CHR ''-'') = CHR ''-''" "upper_char (CHR ''.'') = CHR ''.''"
  "upper_char (CHR ''/'') = CHR ''/''" "upper_char (CHR ''0'') = CHR ''0''" "upper_char (CHR ''1'') = CHR ''1''"
  "upper_char (CHR ''2'') = CHR ''2''" "upper_char (CHR ''3'') = CHR ''3''" "upper_char (CHR ''4'') = CHR ''4''"
  "upper_char (CHR ''5'') = CHR ''5''" "upper_char (CHR ''6'') = CHR ''6''" "upper_char (CHR ''7'') = CHR ''7''"
  "upper_char (CHR ''8'') = CHR ''8''" "upper_char (CHR ''9'') = CHR ''9''" "upper_char (CHR '':'') = CHR '':''"
  "upper_char (CHR '';'') = CHR '';''" "upper_char (CHR ''<'') = CHR ''<''" "upper_char (CHR ''='') = CHR ''=''"
  "upper_char (CHR ''>'') = CHR ''>''" "upper_char (CHR ''?'') = CHR ''?''" "upper_char (CHR ''@'') = CHR ''@''"
  "upper_char (CHR ''A'') = CHR ''A''" "upper_char (CHR ''B'') = CHR ''B''" "upper_char (CHR ''C'') = CHR ''C''"
  "upper_char (CHR ''D'') = CHR ''D''" "upper_char (CHR ''E'') = CHR ''E''" "upper_char (CHR ''F'') = CHR ''F''"
  "upper_char (CHR ''G'') = CHR ''G''" "upper_char (CHR ''H'') = CHR ''H''" "upper_char (CHR ''I'') = CHR ''I''"
  "upper_char (CHR ''J'') = CHR ''J''" "upper_char (CHR ''K'') = CHR ''K''" "upper_char (CHR ''L'') = CHR ''L''"
  "upper_char (CHR ''M'') = CHR ''M''" "upper_char (CHR ''N'') = CHR ''N''" "upper_char (CHR ''O'') = CHR ''O''"
  "upper_char (CHR ''P'') = CHR ''P''" "upper_char (CHR ''Q'') = CHR ''Q''" "upper_char (CHR ''R'') = CHR ''R''"
  "upper_char (CHR ''S'') = CHR ''S''" "upper_char (CHR ''T'') = CHR ''T''" "upper_char (CHR ''U'') = CHR ''U''"
  "upper_char (CHR ''V'') = CHR ''V''" "upper_char (CHR ''W'') = CHR ''W''" "upper_char (CHR ''X'') = CHR ''X''"
  "upper_char (CHR ''Y'') = CHR ''Y''" "upper_char (CHR ''Z'') = CHR ''Z''" "upper_char (CHR ''['') = CHR ''[''"
  "upper_char (CHR 0x5C) = CHR 0x5C" "upper_char (CHR '']'') = CHR '']''" "upper_char (CHR ''^'') = CHR ''^''"
  "upper_char (CHR ''_'') = CHR ''_''" "upper_char (CHR 0x60) = CHR 0x60" "upper_char (CHR ''a'') = CHR ''A''"
  "upper_char (CHR ''b'') = CHR ''B''" "upper_char (CHR ''c'') = CHR ''C''" "upper_char (CHR ''d'') = CHR ''D''"
  "upper_char (CHR ''e'') = CHR ''E''" "upper_char (CHR ''f'') = CHR ''F''" "upper_char (CHR ''g'') = CHR ''G''"
  "upper_char (CHR ''h'') = CHR ''H''" "upper_char (CHR ''i'') = CHR ''I''" "upper_char (CHR ''j'') = CHR ''J''"
  "upper_char (CHR ''k'') = CHR ''K''" "upper_char (CHR ''l'') = CHR ''L''" "upper_char (CHR ''m'') = CHR ''M''"
  "upper_char (CHR ''n'') = CHR ''N''" "upper_char (CHR ''o'') = CHR ''O''" "upper_char (CHR ''p'') = CHR ''P''"
  "upper_char (CHR ''q'') = CHR ''Q''" "upper_char (CHR ''r'') = CHR ''R''" "upper_char (CHR ''s'') = CHR ''S''"
  "upper_char (CHR ''t'') = CHR ''T''" "upper_char (CHR ''u'') = CHR ''U''" "upper_char (CHR ''v'') = CHR ''V''"
  "upper_char (CHR ''w'') = CHR ''W''" "upper_char (CHR ''x'') = CHR ''X''" "upper_char (CHR ''y'') = CHR ''Y''"
  "upper_char (CHR ''z'') = CHR ''Z''" "upper_char (CHR ''{'') = CHR ''{''" "upper_char (CHR ''|'') = CHR ''|''"
  "upper_char (CHR ''}'') = CHR ''}''" "upper_char (CHR ''~'') = CHR ''~''" "upper_char (CHR 0xA9) = CHR 0xA9"
  by (simp_all add: upper_char_def between_def code_def char_of_def bit_iff_odd)

lemma rmatch_seqs:
  "rmatch f (seqs []) k st = k st"
  "rmatch f (seqs (r # rs)) k st = rmatch f r (rmatch f (seqs rs) k) st"
  by (simp_all add: seqs_def)

lemma rmatch_lit:
  "rmatch f (lit []) k st = k st"
  "rmatch f (lit (c # cs)) k st = rmatch f (Atom (Lit c)) (rmatch f (lit cs) k) st"
  by (simp_all add: lit_def seqs_def)

lemma rmatch_alts:
  "rmatch f (alts []) k st = k st"
  "rmatch f (alts [r]) k st = rmatch f r k st"
  "rmatch f (alts (r # r' # rs)) k st =
     (case rmatch f r k st of Some x \<Rightarrow> Some x | None \<Rightarrow> rmatch f (alts (r' # rs)) k st)"
  by simp_all

lemma rmatch_Seq_partial: "rmatch f (Seq a b) k = rmatch f a (rmatch f b k)"
  by (rule ext) simp

lemma rmatch_phrase:
  "rmatch f (phrase []) k st = k st"
  "rmatch f (phrase [w]) k st = rmatch f (lit w) k st"
  "rmatch f (phrase (w # w' # ws)) k st =
     rmatch f (lit w) (rmatch f ws1 (rmatch f (phrase (w' # ws)) k)) st"
  by (simp_all add: rmatch_Seq_partial)

lemma rmatch_reps:
  "rmatch f (star a) k st = rep_greedy f a 0 None k 0 st"
  "rmatch f (plus a) k st = rep_greedy f a 1 None k 0 st"
  "rmatch f ws0 k st = rep_greedy f (In [CSpace]) 0 None k 0 st"
  "rmatch f ws1 k st = rep_greedy f (In [CSpace]) 1 None k 0 st"
  by (simp_all add: star_def plus_def ws0_def ws1_def)

lemma rmatch_named:
  "rmatch f cap k st = rmatch f (Atom (In [CRange CHR ''A'' CHR ''Z''])) k st"
  "rmatch f entity k st = rmatch f (Grp (seqs [cap, plus name_class, legal_suffix])) k st"
  "rmatch f da_entity k st = rmatch f (Grp (seqs [cap, plus da_name_class, legal_suffix])) k st"
  "rmatch f legal_suffix k st = rmatch f (alts [lit ''Ltd'', lit ''Limited'', lit ''LLC'', lit ''Inc'',
     lit ''Corp'', lit ''Corporation'', lit ''GmbH'', lit ''B.V.'', phrase [''Pty'', ''Ltd''],
     lit ''S.A.'']) k st"
  "rmatch f year k st = rmatch f (seqs [lit ''20'', Rep (In [CDigit]) 2 (Some 2)]) k st"
  "rmatch f copyright_year k st = rmatch f (seqs [alts [lit [CHR 0xA9], lit ''copyright'',
     lit ''(c)''], ws0, year, Opt (Seq (lit ''-'') year), ws1]) k st"
  "rmatch f number_no k st = rmatch f (seqs [alts [lit ''Number'', lit ''No''], Opt (lit ''.''),
     Opt (lit '':''), ws1, plus (In [CDigit])]) k st"
  "rmatch f dash k st = rmatch f (Atom (In [CChar CHR ''-''])) k st"
  "rmatch f quote k st = rmatch f (Atom (In [CChar CHR 0x22, CChar CHR 0x27])) k st"
  "rmatch f rights_reserved k st = rmatch f (seqs [ws1, lit ''All'', ws1,
     Atom (In [CChar CHR ''R'', CChar CHR ''r'']), lit ''ights'', ws1,
     Atom (In [CChar CHR ''R'', CChar CHR ''r'']), lit ''eserved'']) k st"
  "rmatch f (pat_meta attr val) k st = rmatch f (seqs [lit ''<meta'', ws1, lit attr, lit ''='',
     quote, lit val, quote, star not_gt, lit ''content='', quote, entity, quote, star not_gt,
     lit ''>'']) k st"
  "rmatch f tag k st = rmatch f (seqs [lit ''<'', plus not_gt, lit ''>'']) k st"
  "rmatch f (href_pattern w) k st = rmatch f (seqs [lit ''<a'', star not_gt, lit ''href='',
     lit [CHR 0x22], Grp (seqs [star not_dq, lit w, star not_dq]), lit [CHR 0x22], star not_gt,
     lit ''>'']) k st"
  by (simp_all only: cap_def entity_def da_entity_def legal_suffix_def year_def copyright_year_def
        number_no_def dash_def quote_def tag_def href_pattern_def rights_reserved_def pat_meta_def)

lemmas eval_chars = code_table lower_char_table upper_char_table isspace_def isalpha_def
  isdigit_re_def isword_re_def between_def below_def

lemmas eval_patterns = pat_copyright_def pat_copyright_plain_def pat_controller_def
  pat_operated_def pat_developed_def pat_rights_reserved_def pat_contact_about_def
  pat_registered_at_def pat_reg_no_before_def pat_reg_no_after_def pat_vat_before_def
  pat_vat_after_def pat_footer_def pat_meta_author_def pat_meta_site_name_def pat_founded_def
  pat_welcome_def da_pat_copyright_def da_pat_copyright_plain_def da_pat_operated_def
  da_pat_rights_reserved_def

lemmas eval_regex = rmatch_seqs rmatch_lit rmatch_alts rmatch_phrase rmatch_reps rmatch_named
  name_class_def da_name_class_def not_gt_def not_dq_def match_at_def finditer_def re_sub_def
  group_text_def is_word_opt_def next_char_def flags_IS_def flags_I_def no_flags_def


lemmas eval_strings = strip_def lstrip_def rstrip_def rstrip_chars_def lower_def startswith_def
  endswith_def squeeze_def

section \<open>The scenario of the copyright notice\<close>

text \<open>The matches of each of the seventeen patterns in the sentence.\<close>

lemma acme_pat_copyright: "finditer flags_IS pat_copyright acme_text = [Some ''Acme Widgets Ltd'']"
  by (simp add: eval_chars eval_regex eval_patterns acme_text_def)

lemma acme_pat_copyright_plain: "finditer flags_IS pat_copyright_plain acme_text = [Some ''Acme Widgets Ltd. All rights reserved.'']"
  by (simp add: eval_chars eval_regex eval_patterns acme_text_def)

lemma acme_pat_controller: "finditer flags_IS pat_controller acme_text = []"
  by (simp add: eval_chars eval_regex eval_patterns acme_text_def)

lemma acme_pat_operated: "finditer flags_IS pat_operated acme_text = []"
  by (simp add: eval_chars eval_regex eval_patterns acme_text_def)

lemma acme_pat_developed: "finditer flags_IS pat_developed acme_text = []"
  by (simp add: eval_chars eval_regex eval_patterns acme_text_def)

lemma acme_pat_rights_reserved: "finditer flags_IS pat_rights_reserved acme_text = []"
  by (simp add: eval_chars eval_regex eval_patterns acme_text_def)

lemma acme_pat_contact_about: "finditer flags_IS pat_contact_about acme_text = []"
  by (simp add: eval_chars eval_regex eval_patterns acme_text_def)

lemma acme_pat_registered_at: "finditer flags_IS pat_registered_at acme_text = []"
  by (simp add: eval_chars eval_regex eval_patterns acme_text_def)

lemma acme_pat_reg_no_before: "finditer flags_IS pat_reg_no_before acme_text = []"
  by (simp add: eval_chars eval_regex eval_patterns acme_text_def)

lemma acme_pat_reg_no_after: "finditer flags_IS pat_reg_no_after acme_text = []"
  by (simp add: eval_chars eval_regex eval_patterns acme_text_def)

lemma acme_pat_vat_before: "finditer flags_IS pat_vat_before acme_text = []"
  by (simp add: eval_chars eval_regex eval_patterns acme_text_def)

lemma acme_pat_vat_after: "finditer flags_IS pat_vat_after acme_text = []"
  by (simp add: eval_chars eval_regex eval_patterns acme_text_def)

lemma acme_pat_footer: "finditer flags_IS pat_footer acme_text = []"
  by (simp add: eval_chars eval_regex eval_patterns acme_text_def)

lemma acme_pat_meta_author: "finditer flags_IS pat_meta_author acme_text = []"
  by (simp add: eval_chars eval_regex eval_patterns acme_text_def)

lemma acme_pat_meta_site_name: "finditer flags_IS pat_meta_site_name acme_text = []"
  by (simp add: eval_chars eval_regex eval_patterns acme_text_def)

lemma acme_pat_founded: "finditer flags_IS pat_founded acme_text = []"
  by (simp add: eval_chars eval_regex eval_patterns acme_text_def)

lemma acme_pat_welcome: "finditer flags_IS pat_welcome acme_text = []"
  by (simp add: eval_chars eval_regex eval_patterns acme_text_def)

lemma acme_valid_1: "validate_company_name ''Acme Widgets Ltd''"
  by (simp add: validate_company_name_def suspicious_def eval_chars eval_strings)

lemma acme_valid_2: "validate_company_name ''Acme Widgets Ltd. All rights reserved.''"
  by (simp add: validate_company_name_def suspicious_def eval_chars eval_strings)

lemma acme_candidates:
  "candidates acme_text = [''Acme Widgets Ltd'', ''Acme Widgets Ltd. All rights reserved.'']"
  unfolding candidates_def company_patterns_def pattern_candidates_def
  by (simp add: acme_pat_copyright acme_pat_copyright_plain acme_pat_controller acme_pat_operated
      acme_pat_developed acme_pat_rights_reserved acme_pat_contact_about acme_pat_registered_at
      acme_pat_reg_no_before acme_pat_reg_no_after acme_pat_vat_before acme_pat_vat_after
      acme_pat_footer acme_pat_meta_author acme_pat_meta_site_name acme_pat_founded acme_pat_welcome
      acme_valid_1 acme_valid_2 eval_chars eval_strings)

lemma acme_norm_1: "normalize_company_name ''Acme Widgets Ltd'' = ''acme widgets''"
  by (simp add: normalize_company_name_def legal_suffixes_def drop_suffix_def eval_chars eval_strings
      eval_regex)

lemma acme_norm_2: "normalize_company_name ''Acme Widgets Ltd. All rights reserved.''
    = ''acme widgets ltd all rights reserved''"
  by (simp add: normalize_company_name_def legal_suffixes_def drop_suffix_def eval_chars eval_strings
      eval_regex)

lemma acme_best: "best_candidate [''acme widgets'', ''acme widgets ltd all rights reserved'']
    = ''acme widgets''"
  by (simp add: best_candidate_def sorted_by_count_def tally_def)

lemma acme_clean: "clean_company_name (Some ''acme widgets'') = Some ''acme widgets''"
  by (simp add: clean_company_name_def cleanup_phrases_def remove_phrase_def eval_chars eval_strings
      eval_regex)

text \<open>
  C1. On the sentence of the scenario the patterns yield two candidates, the entity with
  its suffix \<^verbatim>\<open>Acme Widgets Ltd\<close> and the longer match of the pattern without suffix; the
  name returned is the normalised key of the first, \<^verbatim>\<open>acme widgets\<close>: lower case, the
  suffix \<^verbatim>\<open>Ltd\<close> gone. The scenario expects \<^verbatim>\<open>Acme Widgets Ltd\<close>.
\<close>

theorem acme_scenario_result:
  "candidates acme_text = [''Acme Widgets Ltd'', ''Acme Widgets Ltd. All rights reserved.''] \<and>
   extract_company_name_from_text acme_text = Some ''acme widgets''"
proof -
  have "acme_text \<noteq> []" by (simp add: acme_text_def)
  then show ?thesis
    by (simp add: extract_company_name_from_text_def acme_candidates acme_norm_1 acme_norm_2
        acme_best acme_clean)
qed

section \<open>The URL variants of a domain\<close>

text \<open>
  C4. For the domain \<^verbatim>\<open>www.example.org\<close> the list of \<^verbatim>\<open>CompanyNameExtractor\<close> holds
  the two URLs with \<^verbatim>\<open>www.\<close> and nothing else: the variants without \<^verbatim>\<open>www.\<close> are
  never tried. \<^verbatim>\<open>ImprovedAnalyzer.fetch_homepage\<close> does add them; it removes every
  occurrence of \<^verbatim>\<open>www.\<close>, not only the leading one.
\<close>

theorem www_variants_not_stripped:
  "url_variants ''www.example.org'' = [''https://www.example.org'', ''http://www.example.org''] \<and>
   ia_url_variants ''www.example.org'' = [''https://www.example.org'', ''http://www.example.org'',
      ''https://example.org'', ''http://example.org''] \<and>
   ia_url_variants ''www.awww.com'' = [''https://www.awww.com'', ''http://www.awww.com'',
      ''https://acom'', ''http://acom'']"
  by (simp add: url_variants_def ia_url_variants_def keep_truthy_def truthy_def startswith_def)

section \<open>What a returned company name satisfies\<close>
























section \<open>The policy URLs of a homepage\<close>

lemma link_markup:
  "markup_urls ''https://example.com'' link_text
     = [''https://example.com/privacy-policy'', ''https://example.com/privacy-policy'']"
  by (simp add: markup_urls_def privacy_policy_patterns_def link_text_def normalize_url_def
      before_first_def eval_chars eval_regex eval_strings)

lemma foldl_add_distinct:
  "distinct us \<Longrightarrow>
   foldl (\<lambda>acc u. if u \<in> set acc then acc else acc @ [u]) acc us
     = acc @ filter (\<lambda>u. u \<notin> set acc) us"
proof (induction us arbitrary: acc)
  case Nil then show ?case by simp
next
  case (Cons u us)
  then have d: "distinct us" and n: "u \<notin> set us" by simp_all
  show ?case
  proof (cases "u \<in> set acc")
    case True
    then show ?thesis using Cons.IH[OF d, of acc] by simp
  next
    case False
    have "filter (\<lambda>v. v \<notin> set (acc @ [u])) us = filter (\<lambda>v. v \<notin> set acc) us"
      using n by (intro filter_cong) auto
    then show ?thesis using False Cons.IH[OF d, of "acc @ [u]"] by simp
  qed
qed

lemma find_privacy_policy_url_foldl:
  "find_privacy_policy_url base_url content
     = foldl (\<lambda>acc u. if u \<in> set acc then acc else acc @ [u]) (markup_urls base_url content)
         (map (normalize_url base_url) common_policy_paths)"
  by (simp add: find_privacy_policy_url_def foldl_map add_common_path_def[abs_def])

lemma common_paths_normalized:
  "map (normalize_url base_url) common_policy_paths
     = map (\<lambda>p. (if endswith (before_first CHR ''?'' (before_first CHR ''#'' base_url)) ''/''
                    then butlast (before_first CHR ''?'' (before_first CHR ''#'' base_url))
                    else before_first CHR ''?'' (before_first CHR ''#'' base_url)) @ p)
         common_policy_paths"
  by (simp add: common_policy_paths_def normalize_url_def startswith_def Let_def)

lemma common_paths_distinct: "distinct (map (normalize_url base_url) common_policy_paths)"
  unfolding common_paths_normalized
  by (simp add: distinct_map inj_on_def) (simp add: common_policy_paths_def)

text \<open>
  C9, as amended. The list returned by \<^verbatim>\<open>find_privacy_policy_url\<close> is the list of markup
  matches (pattern by pattern in the order of the pattern list, each pattern's matches in
  document order, repeated URLs kept), followed by those common paths, made absolute,
  that are not among the markup matches; the appended part has no duplicates.
\<close>

theorem policy_urls_shape:
  "find_privacy_policy_url base_url content
     = markup_urls base_url content
       @ filter (\<lambda>u. u \<notin> set (markup_urls base_url content))
           (map (normalize_url base_url) common_policy_paths) \<and>
   distinct (filter (\<lambda>u. u \<notin> set (markup_urls base_url content))
           (map (normalize_url base_url) common_policy_paths))"
  using common_paths_distinct[of base_url]
  by (simp add: find_privacy_policy_url_foldl foldl_add_distinct)

text \<open>
  C9, as stated, fails: one link whose \<^verbatim>\<open>href\<close> holds both \<^verbatim>\<open>privacy\<close> and \<^verbatim>\<open>policy\<close>
  is matched by two patterns and listed twice.
\<close>

theorem policy_urls_counterexample:
  "\<not> distinct (find_privacy_policy_url ''https://example.com'' link_text)"
  by (simp add: find_privacy_policy_url_foldl foldl_add_distinct common_paths_distinct link_markup)

section \<open>Whitespace normalisation\<close>

lemma rep_greedy_finish:
  "rep_greedy f a lo None finish n (p, s, m, g)
     = (if lo \<le> n + length (takeWhile (atom_ok f a) s)
        then Some (m + length (takeWhile (atom_ok f a) s), g) else None)"
  by (induction s arbitrary: n p m) (auto simp: below_def)

lemma isspace_space: "isspace CHR '' ''"
  by (simp add: isspace_def between_def code_def)

lemma match_at_ws1:
  "match_at no_flags ws1 p s
     = (if takeWhile isspace s = [] then None else Some (length (takeWhile isspace s), None))"
proof -
  have a: "atom_ok no_flags (In [CSpace]) = isspace"
    by (rule ext) (simp add: no_flags_def)
  show ?thesis
    by (simp add: match_at_def ws1_def plus_def rep_greedy_finish a Suc_le_eq)
qed

lemma sub_ws1_collapse: "sub_from no_flags ws1 '' '' p s = collapse s"
proof (induction s arbitrary: p rule: length_induct)
  case (1 s)
  show ?case
  proof (cases s)
    case Nil then show ?thesis by (simp add: match_at_ws1)
  next
    case (Cons x xs)
    show ?thesis
    proof (cases "isspace x")
      case False
      have "sub_from no_flags ws1 '' '' (Some x) xs = collapse xs"
        using 1 Cons by simp
      with False Cons show ?thesis by (simp add: match_at_ws1)
    next
      case True
      define n where "n = length (takeWhile isspace xs)"
      have d: "drop n xs = dropWhile isspace xs" by (simp add: n_def dropWhile_eq_drop)
      have len: "length (dropWhile isspace xs) < length s"
        using Cons by (simp add: length_dropWhile_le le_imp_less_Suc)
      have IH: "\<And>q. sub_from no_flags ws1 '' '' q (dropWhile isspace xs) = collapse (dropWhile isspace xs)"
        using 1 len by blast
      have m: "match_at no_flags ws1 p (x # xs) = Some (Suc n, None)"
        using True by (simp add: match_at_ws1 n_def)
      show ?thesis
      proof (cases n)
        case 0
        then have "dropWhile isspace xs = xs" using d by simp
        with IH[of "Some x"] m 0 True Cons show ?thesis by simp
      next
        case (Suc k)
        with IH[of "Some (xs ! (Suc n - 2))"] m d True Cons show ?thesis by simp
      qed
    qed
  qed
qed

lemma squeeze_collapse: "squeeze s = rstrip (lstrip (collapse s))"
  by (simp add: squeeze_def strip_def re_sub_def sub_ws1_collapse)

lemma collapse_hd: "s \<noteq> [] \<Longrightarrow> \<not> isspace (hd s) \<Longrightarrow> collapse s \<noteq> [] \<and> hd (collapse s) = hd s"
  by (cases s) auto

lemma dropWhile_hd: "dropWhile P xs = [] \<or> \<not> P (hd (dropWhile P xs))"
  by (metis hd_dropWhile)

lemma tightish_collapse: "tightish (collapse s)"
proof (induction s rule: collapse.induct)
  case 1 show ?case by simp
next
  case (2 x xs)
  show ?case
  proof (cases "isspace x")
    case False with 2 show ?thesis by simp
  next
    case True
    define d where "d = dropWhile isspace xs"
    have h: "d = [] \<or> \<not> isspace (hd d)" unfolding d_def by (rule dropWhile_hd)
    have "collapse d = [] \<or> \<not> isspace (hd (collapse d))"
      using h collapse_hd[of d] by (cases "d = []") auto
    moreover have "tightish (collapse d)" using 2 True by (simp add: d_def)
    ultimately show ?thesis using True by (simp add: d_def isspace_space)
  qed
qed

lemma tightish_dropWhile: "tightish s \<Longrightarrow> tightish (dropWhile P s)"
  by (induction s) (auto split: if_splits)

lemma rev_dropWhile_rev_Cons:
  "rev (dropWhile P (rev (x # xs)))
     = (if list_all P (x # xs) then [] else x # rev (dropWhile P (rev xs)))"
proof (cases "list_all P xs")
  case True
  then have "dropWhile P (rev xs) = []" by (simp add: list_all_iff)
  moreover have "dropWhile P (rev xs @ [x]) = dropWhile P [x]"
    using True by (intro dropWhile_append2) (simp add: list_all_iff)
  ultimately show ?thesis using True by simp
next
  case False
  then obtain y where "y \<in> set (rev xs)" "\<not> P y" by (auto simp: list_all_iff)
  then have "dropWhile P (rev xs @ [x]) = dropWhile P (rev xs) @ [x]"
    by (metis dropWhile_append1)
  with False show ?thesis by simp
qed

lemma rstrip_rec: "rstrip s = rstrip_rec s"
proof (induction s)
  case Nil show ?case by (simp add: rstrip_def)
next
  case (Cons x xs)
  have "rstrip (x # xs) = (if list_all isspace (x # xs) then [] else x # rstrip xs)"
    unfolding rstrip_def by (rule rev_dropWhile_rev_Cons)
  with Cons show ?case by simp
qed

lemma rstrip_rec_hd: "s \<noteq> [] \<Longrightarrow> \<not> isspace (hd s) \<Longrightarrow> rstrip_rec s \<noteq> [] \<and> hd (rstrip_rec s) = hd s"
  by (cases s) auto

lemma tight_rstrip_rec: "tightish s \<Longrightarrow> tight (rstrip_rec s)"
proof (induction s)
  case Nil show ?case by simp
next
  case (Cons x xs)
  show ?case
  proof (cases "list_all isspace (x # xs)")
    case True then show ?thesis by simp
  next
    case False
    have t: "tightish xs" using Cons.prems by (simp split: if_splits)
    show ?thesis
    proof (cases "isspace x")
      case nsp: False
      with False Cons.IH[OF t] show ?thesis by simp
    next
      case sp: True
      from sp False have ne: "xs \<noteq> []" by auto
      from sp Cons.prems ne have x: "x = CHR '' ''" and h: "\<not> isspace (hd xs)" by simp_all
      from rstrip_rec_hd[OF ne h] Cons.IH[OF t] sp x h False show ?thesis by simp
    qed
  qed
qed

lemma tight_collapse: "tight s \<Longrightarrow> collapse s = s"
proof (induction s)
  case Nil show ?case by simp
next
  case (Cons x xs)
  show ?case
  proof (cases "isspace x")
    case False with Cons show ?thesis by simp
  next
    case True
    with Cons.prems have "xs \<noteq> []" "\<not> isspace (hd xs)" "tight xs" "x = CHR '' ''" by simp_all
    moreover then have "dropWhile isspace xs = xs" by (cases xs) auto
    ultimately show ?thesis using True Cons.IH by simp
  qed
qed

lemma tight_not_all_space: "tight s \<Longrightarrow> s \<noteq> [] \<Longrightarrow> \<not> list_all isspace s"
  by (induction s) (auto split: if_splits)

lemma tight_rstrip_rec_id: "tight s \<Longrightarrow> rstrip_rec s = s"
proof (induction s)
  case Nil show ?case by simp
next
  case (Cons x xs)
  have "\<not> list_all isspace (x # xs)" using tight_not_all_space[OF Cons.prems] by simp
  moreover have "tight xs" using Cons.prems by (simp split: if_splits)
  ultimately show ?case using Cons.IH by simp
qed

lemma squeezed_squeeze: "squeezed (squeeze s)"
proof -
  define t where "t = lstrip (collapse s)"
  have tt: "tightish t" unfolding t_def lstrip_def by (rule tightish_dropWhile) (rule tightish_collapse)
  have th: "t = [] \<or> \<not> isspace (hd t)" unfolding t_def lstrip_def by (rule dropWhile_hd)
  have r: "squeeze s = rstrip_rec t" by (simp add: squeeze_collapse t_def rstrip_rec)
  have "tight (rstrip_rec t)" using tt by (rule tight_rstrip_rec)
  moreover have "rstrip_rec t = [] \<or> \<not> isspace (hd (rstrip_rec t))"
    using th rstrip_rec_hd[of t] by (cases "t = []") auto
  ultimately show ?thesis unfolding r squeezed_def by simp
qed

lemma squeezed_fixed: "squeezed s \<Longrightarrow> squeeze s = s"
proof -
  assume a: "squeezed s"
  then have t: "tight s" and h: "s = [] \<or> \<not> isspace (hd s)" by (simp_all add: squeezed_def)
  have "lstrip s = s" using h by (cases s) (auto simp: lstrip_def)
  then show ?thesis using t by (simp add: squeeze_collapse tight_collapse rstrip_rec tight_rstrip_rec_id)
qed

lemma squeeze_idem: "squeeze (squeeze s) = squeeze s"
  by (rule squeezed_fixed) (rule squeezed_squeeze)

section \<open>Text of a page, twice\<close>

text \<open>
  C6, as amended. The whitespace normalisation is idempotent, and extracting the text of
  an extracted text changes nothing whenever the parser returns that text as it is.
\<close>

theorem text_idempotent_on_fixed:
  "squeeze (squeeze t) = squeeze t \<and>
   (soup_text (extract_text_from_html soup_text x) = extract_text_from_html soup_text x
      \<longrightarrow> extract_text_from_html soup_text (extract_text_from_html soup_text x)
            = extract_text_from_html soup_text x)"
  by (simp add: extract_text_from_html_def squeeze_idem)

lemma squeeze_a_b: "squeeze ''a  b'' = ''a b''"
  by (simp add: squeeze_collapse eval_chars eval_strings)

theorem text_idempotent_on_fixed_witness:
  "extract_text_from_html (\<lambda>h. h) ''a  b'' = ''a b'' \<and>
   extract_text_from_html (\<lambda>h. h) (extract_text_from_html (\<lambda>h. h) ''a  b'')
      = extract_text_from_html (\<lambda>h. h) ''a  b''"
  using text_idempotent_on_fixed [of "''a  b''" "\<lambda>h. h" "''a  b''"]
  by (simp add: extract_text_from_html_def squeeze_a_b)

text \<open>
  C6, as stated, fails where the parser decodes a character reference: the text of
  \<^verbatim>\<open>&amp;amp;\<close> is \<^verbatim>\<open>&amp;\<close>, and the text of that is \<^verbatim>\<open>&\<close>.
\<close>

lemma amp_1: "extract_text_from_html decode_amp ''&amp;amp;'' = ''&amp;''"
  by (simp add: extract_text_from_html_def squeeze_collapse eval_chars eval_strings)

lemma amp_2: "extract_text_from_html decode_amp ''&amp;'' = ''&''"
  by (simp add: extract_text_from_html_def squeeze_collapse eval_chars eval_strings)

theorem text_idempotent_counterexample:
  "extract_text_from_html decode_amp (extract_text_from_html decode_amp ''&amp;amp;'')
     \<noteq> extract_text_from_html decode_amp ''&amp;amp;''"
  by (simp add: amp_1 amp_2)

section \<open>Cleaning a name, twice\<close>

lemma rmatch_lit_finish:
  "rmatch flags_I (lit ph) finish (p, s, m, g)
     = (if startswith (lower s) (lower ph) then Some (m + length ph, g) else None)"
proof (induction ph arbitrary: p s m)
  case Nil show ?case by (simp add: rmatch_lit startswith_def lower_def)
next
  case (Cons c cs)
  show ?case
  proof (cases s)
    case Nil then show ?thesis by (simp add: rmatch_lit startswith_def lower_def)
  next
    case (Cons x xs)
    have "rmatch flags_I (lit (c # cs)) finish (p, x # xs, m, g)
          = (if lower_char x = lower_char c then rmatch flags_I (lit cs) finish (Some x, xs, m + 1, g) else None)"
      by (simp add: rmatch_lit flags_I_def)
    then show ?thesis using Cons Cons.IH[of "Some x" xs "m + 1"]
      by (auto simp: startswith_def lower_def)
  qed
qed

lemma match_at_lit: 
  "match_at flags_I (lit ph) p s = (if startswith (lower s) (lower ph) then Some (length ph, None) else None)"
  by (simp add: match_at_def rmatch_lit_finish)

lemma sub_lit_absent:
  "\<not> contains (lower s) (lower ph) \<Longrightarrow> sub_from flags_I (lit ph) [] p s = s"
  by (induction s arbitrary: p) (auto simp: match_at_lit lower_def startswith_def)

lemma remove_phrase_absent:
  "\<not> contains (lower s) (lower ph) \<Longrightarrow> remove_phrase s ph = s"
  by (simp add: remove_phrase_def re_sub_def sub_lit_absent)

lemma foldl_remove_absent:
  "\<forall>ph\<in>set phs. \<not> contains (lower s) (lower ph) \<Longrightarrow> foldl remove_phrase s phs = s"
  by (induction phs) (simp_all add: remove_phrase_absent)

lemma rstrip_chars_id: "s \<noteq> [] \<Longrightarrow> last s \<notin> set cs \<Longrightarrow> rstrip_chars cs s = s"
proof -
  assume a: "s \<noteq> []" "last s \<notin> set cs"
  then have "rev s \<noteq> []" "hd (rev s) \<notin> set cs" by (simp_all add: hd_rev)
  then have "dropWhile (\<lambda>c. c \<in> set cs) (rev s) = rev s" by (cases "rev s") auto
  then show ?thesis by (simp add: rstrip_chars_def)
qed

lemma no_flags_sel: "ignorecase no_flags = False" "dotall no_flags = False"
  by (simp_all add: no_flags_def)

lemma atom_not_gt: "atom_ok no_flags not_gt x = (x \<noteq> CHR ''>'')"
  by (simp add: not_gt_def no_flags_def)

lemma rmatch_gt_finish:
  "rmatch no_flags (seqs [lit ''>'']) finish (p, s, m, g)
     = (case s of [] \<Rightarrow> None | x # xs \<Rightarrow> if x = CHR ''>'' then Some (m + 1, g) else None)"
  by (cases s) (simp_all add: rmatch_seqs rmatch_lit no_flags_sel)

lemma rep_greedy_then_gt:
  "rep_greedy no_flags not_gt lo None (rmatch no_flags (seqs [lit ''>'']) finish) n (p, s, m, g)
     = (if lo \<le> n + length (takeWhile (\<lambda>c. c \<noteq> CHR ''>'') s)
           \<and> length (takeWhile (\<lambda>c. c \<noteq> CHR ''>'') s) < length s
        then Some (m + length (takeWhile (\<lambda>c. c \<noteq> CHR ''>'') s) + 1, g) else None)"
  by (induction s arbitrary: n p m) (auto simp: below_def atom_not_gt rmatch_gt_finish)

lemma match_at_tag:
  "match_at no_flags tag p s
     = (case s of [] \<Rightarrow> None
        | x # xs \<Rightarrow>
            if x = CHR ''<'' \<and> 1 \<le> length (takeWhile (\<lambda>c. c \<noteq> CHR ''>'') xs)
               \<and> length (takeWhile (\<lambda>c. c \<noteq> CHR ''>'') xs) < length xs
            then Some (length (takeWhile (\<lambda>c. c \<noteq> CHR ''>'') xs) + 2, None) else None)"
  by (cases s)
     (auto simp: match_at_def rmatch_named rmatch_seqs(2) rmatch_lit rmatch_reps rep_greedy_then_gt
        no_flags_sel)

lemma set_sub_from: "set (sub_from f r [] p s) \<subseteq> set s"
proof (induction s arbitrary: p rule: length_induct)
  case (1 s)
  show ?case
  proof (cases s)
    case Nil then show ?thesis by (simp split: option.splits)
  next
    case (Cons x xs)
    have a: "\<And>q. set (sub_from f r [] q xs) \<subseteq> set xs" using 1 Cons by simp
    have b: "\<And>q k. set (sub_from f r [] q (drop k xs)) \<subseteq> set xs"
    proof -
      fix q k
      have "length (drop k xs) < length s" using Cons by simp
      then have "set (sub_from f r [] q (drop k xs)) \<subseteq> set (drop k xs)" using 1 by blast
      then show "set (sub_from f r [] q (drop k xs)) \<subseteq> set xs"
        using set_drop_subset[of k xs] by blast
    qed
    show ?thesis
    proof (cases "match_at f r p (x # xs)")
      case None with a[of "Some x"] Cons show ?thesis by auto
    next
      case (Some ng)
      obtain n g where ng: "ng = (n, g)" by (cases ng)
      show ?thesis using Some ng Cons a[of "Some x"] b[of "Some (xs ! (n - 2))" "n - 1"]
        by (auto split: if_splits)
    qed
  qed
qed

lemma untagged_no_lt: "CHR ''<'' \<notin> set b \<Longrightarrow> untagged (b @ c) = untagged c"
  by (induction b) auto

lemma untagged_suffix: "untagged (b @ c) \<Longrightarrow> untagged c"
  by (induction b) auto

text \<open>
  Replacing a piece that holds no \<^verbatim>\<open>>\<close> by a piece that holds neither \<^verbatim>\<open><\<close> nor \<^verbatim>\<open>>\<close>
  keeps the shape, provided the piece is not empty or the replacement is.
\<close>

lemma untagged_replace:
  "untagged (a @ b @ c) \<Longrightarrow> CHR ''>'' \<notin> set b \<Longrightarrow> CHR ''<'' \<notin> set b' \<Longrightarrow> CHR ''>'' \<notin> set b'
     \<Longrightarrow> b \<noteq> [] \<or> b' = [] \<Longrightarrow> untagged (a @ b' @ c)"
proof (induction a)
  case Nil
  then show ?case using untagged_suffix[of b c] by (simp add: untagged_no_lt)
next
  case (Cons x a)
  note P = Cons.prems
  have tl: "untagged (a @ b' @ c)" using Cons by simp
  show ?case
  proof (cases "x = CHR ''<''")
    case False with tl show ?thesis by simp
  next
    case True
    from P(1) True
    have h: "(case a @ b @ c of [] \<Rightarrow> True | y # _ \<Rightarrow> y = CHR ''>'' \<or> CHR ''>'' \<notin> set (a @ b @ c))"
      by simp
    have "(case a @ b' @ c of [] \<Rightarrow> True | y # _ \<Rightarrow> y = CHR ''>'' \<or> CHR ''>'' \<notin> set (a @ b' @ c))"
    proof (cases a)
      case A: (Cons y ys)
      with h P show ?thesis by auto
    next
      case A: Nil
      show ?thesis
      proof (cases b)
        case B: Nil
        then have "b' = []" using P(5) by simp
        with h A B show ?thesis by (auto split: list.splits)
      next
        case B: (Cons y ys)
        with h A P(2) have "CHR ''>'' \<notin> set c" by auto
        with A P(4) have "CHR ''>'' \<notin> set (a @ b' @ c)" by simp
        then show ?thesis by (cases "a @ b' @ c") simp_all
      qed
    qed
    with tl True show ?thesis by simp
  qed
qed

lemma takeWhile_all: "CHR ''>'' \<notin> set xs \<Longrightarrow> takeWhile (\<lambda>c. c \<noteq> CHR ''>'') xs = xs"
  by (induction xs) auto

lemma match_at_tag_untagged:
  "untagged s \<Longrightarrow> match_at no_flags tag p s = None"
proof (cases s)
  case Nil then show ?thesis by (simp add: match_at_tag)
next
  case (Cons x xs)
  assume u: "untagged s"
  show ?thesis
  proof (cases "x = CHR ''<''")
    case False with Cons show ?thesis by (simp add: match_at_tag)
  next
    case True
    show ?thesis
    proof (cases xs)
      case Nil with Cons show ?thesis by (simp add: match_at_tag)
    next
      case C: (Cons y ys)
      from u Cons True C have "y = CHR ''>'' \<or> CHR ''>'' \<notin> set xs" by simp
      then show ?thesis
      proof
        assume "y = CHR ''>''"
        with Cons C show ?thesis by (simp add: match_at_tag)
      next
        assume ng: "CHR ''>'' \<notin> set xs"
        show ?thesis unfolding Cons by (simp add: match_at_tag takeWhile_all[OF ng])
      qed
    qed
  qed
qed

lemma sub_tag_untagged: "untagged s \<Longrightarrow> sub_from no_flags tag [] p s = s"
proof (induction s arbitrary: p)
  case Nil then show ?case by (simp add: match_at_tag)
next
  case (Cons x xs)
  have "untagged xs" using Cons.prems by simp
  then have "sub_from no_flags tag [] (Some x) xs = xs" by (rule Cons.IH)
  moreover have "match_at no_flags tag p (x # xs) = None"
    using Cons.prems by (rule match_at_tag_untagged)
  ultimately show ?case by simp
qed

lemma untagged_sub_tag: "untagged (sub_from no_flags tag [] p s)"
proof (induction s arbitrary: p rule: length_induct)
  case (1 s)
  show ?case
  proof (cases s)
    case Nil then show ?thesis by (simp add: match_at_tag)
  next
    case (Cons x xs)
    define r where "r = length (takeWhile (\<lambda>c. c \<noteq> CHR ''>'') xs)"
    have IHxs: "\<And>q. untagged (sub_from no_flags tag [] q xs)" using 1 Cons by simp
    show ?thesis
    proof (cases "x = CHR ''<'' \<and> 1 \<le> r \<and> r < length xs")
      case True
      then have m: "match_at no_flags tag p (x # xs) = Some (r + 2, None)"
        by (simp add: match_at_tag r_def)
      have "length (drop (r + 1) xs) < length s" using Cons by simp
      then have "untagged (sub_from no_flags tag [] (Some (xs ! r)) (drop (r + 1) xs))"
        using 1 by blast
      with m Cons show ?thesis by simp
    next
      case False
      then have m: "match_at no_flags tag p (x # xs) = None"
        by (auto simp: match_at_tag r_def)
      define R where "R = sub_from no_flags tag [] (Some x) xs"
      have uR: "untagged R" unfolding R_def by (rule IHxs)
      have res: "sub_from no_flags tag [] p s = x # R" using m Cons by (simp add: R_def)
      show ?thesis
      proof (cases "x = CHR ''<''")
        case nl: False with uR res show ?thesis by simp
      next
        case lt: True
        have "r \<le> length xs" unfolding r_def by (rule length_takeWhile_le)
        with False lt have c: "r = 0 \<or> r = length xs" by auto
        have "(case R of [] \<Rightarrow> True | y # _ \<Rightarrow> y = CHR ''>'' \<or> CHR ''>'' \<notin> set R)"
        proof (cases xs)
          case Nil then show ?thesis by (simp add: R_def match_at_tag)
        next
          case X: (Cons y ys)
          show ?thesis
          proof (cases "y = CHR ''>''")
            case True
            then have "R = y # sub_from no_flags tag [] (Some y) ys"
              using X by (simp add: R_def match_at_tag)
            with True show ?thesis by simp
          next
            case ngt: False
            then have "r \<noteq> 0" using X by (simp add: r_def)
            with c have "r = length xs" by simp
            then have "takeWhile (\<lambda>c. c \<noteq> CHR ''>'') xs = xs"
              unfolding r_def by (metis takeWhile_eq_take take_all order_refl)
            then have "CHR ''>'' \<notin> set xs" by (metis (mono_tags, lifting) set_takeWhileD)
            moreover have "set R \<subseteq> set xs" unfolding R_def by (rule set_sub_from)
            ultimately have "CHR ''>'' \<notin> set R" by blast
            then show ?thesis by (cases R) simp_all
          qed
        qed
        with uR res lt show ?thesis by simp
      qed
    qed
  qed
qed

lemma untagged_drop_tail: "untagged (a @ b) \<Longrightarrow> CHR ''>'' \<notin> set b \<Longrightarrow> untagged a"
  using untagged_replace[of a b "[]" "[]"] by simp

lemma gt_not_space: "\<not> isspace CHR ''>''"
  by (simp add: isspace_def between_def code_def)

lemma untagged_collapse: "untagged (a @ s) \<Longrightarrow> untagged (a @ collapse s)"
proof (induction s arbitrary: a rule: collapse.induct)
  case 1 then show ?case by simp
next
  case (2 x xs)
  show ?case
  proof (cases "isspace x")
    case False
    with "2.IH"(2)[of "a @ [x]"] "2.prems" show ?thesis by simp
  next
    case True
    define w where "w = takeWhile isspace xs"
    define d where "d = dropWhile isspace xs"
    have xs: "xs = w @ d" by (simp add: w_def d_def)
    have nw: "CHR ''>'' \<notin> set (x # w)"
      using True gt_not_space set_takeWhileD[of "CHR ''>''" isspace xs] by (auto simp: w_def)
    have "untagged (a @ (x # w) @ d)" using "2.prems" xs by simp
    then have "untagged (a @ '' '' @ d)"
      by (rule untagged_replace) (use nw in simp_all)
    then have "untagged ((a @ '' '') @ d)" by simp
    then have "untagged ((a @ '' '') @ collapse d)"
      unfolding d_def using True by (intro "2.IH"(1)) 
    with True show ?thesis by (simp add: d_def)
  qed
qed

lemma untagged_lstrip: "untagged s \<Longrightarrow> untagged (lstrip s)"
proof -
  assume "untagged s"
  then have "untagged (takeWhile isspace s @ dropWhile isspace s)" by simp
  then show ?thesis unfolding lstrip_def by (rule untagged_suffix)
qed

lemma rev_dropWhile_split: "s = rev (dropWhile P (rev s)) @ rev (takeWhile P (rev s))"
  by (metis rev_append rev_rev_ident takeWhile_dropWhile_id)

lemma untagged_rstrip: "untagged s \<Longrightarrow> untagged (rstrip s)"
proof -
  assume u: "untagged s"
  have "CHR ''>'' \<notin> set (rev (takeWhile isspace (rev s)))"
    using gt_not_space set_takeWhileD[of "CHR ''>''" isspace "rev s"] by auto
  moreover have "untagged (rstrip s @ rev (takeWhile isspace (rev s)))"
    unfolding rstrip_def using u rev_dropWhile_split[of s isspace] by simp
  ultimately show ?thesis by (rule untagged_drop_tail[rotated])
qed

lemma untagged_rstrip_chars: "CHR ''>'' \<notin> set cs \<Longrightarrow> untagged s \<Longrightarrow> untagged (rstrip_chars cs s)"
proof -
  assume c: "CHR ''>'' \<notin> set cs" and u: "untagged s"
  have "CHR ''>'' \<notin> set (rev (takeWhile (\<lambda>c. c \<in> set cs) (rev s)))"
    using c set_takeWhileD[of "CHR ''>''" "\<lambda>c. c \<in> set cs" "rev s"] by auto
  moreover have "untagged (rstrip_chars cs s @ rev (takeWhile (\<lambda>c. c \<in> set cs) (rev s)))"
    unfolding rstrip_chars_def using u rev_dropWhile_split[of s "\<lambda>c. c \<in> set cs"] by simp
  ultimately show ?thesis by (rule untagged_drop_tail[rotated])
qed

lemma untagged_squeeze: "untagged s \<Longrightarrow> untagged (squeeze s)"
  using untagged_collapse[of "[]" s]
  by (simp add: squeeze_collapse untagged_rstrip untagged_lstrip)

lemma lower_char_gt: "lower_char x = CHR ''>'' \<Longrightarrow> x = CHR ''>''"
proof (cases "has_upper x")
  case False
  assume "lower_char x = CHR ''>''"
  with False show ?thesis by (simp add: lower_char_def)
next
  case True
  assume "lower_char x = CHR ''>''"
  with True have "char_of (code x + 32) = CHR ''>''" by (simp add: lower_char_def)
  then have "(of_char (char_of (code x + 32)) :: nat) = of_char CHR ''>''" by simp
  then have "(code x + 32) mod 256 = 62" by simp
  moreover have "code x < 256" by (simp add: code_def)
  moreover have "65 \<le> code x" using True by (auto simp: has_upper_def between_def)
  ultimately show ?thesis by (simp add: mod_if split: if_splits)
qed

lemma gt_in_lower: "CHR ''>'' \<in> set s \<Longrightarrow> CHR ''>'' \<in> set (lower s)"
proof -
  assume "CHR ''>'' \<in> set s"
  then have "lower_char CHR ''>'' \<in> set (lower s)" by (simp add: lower_def)
  then show ?thesis by (simp add: lower_char_table)
qed

lemma startswith_lower_take:
  "startswith (lower s) (lower ph) \<Longrightarrow> length ph \<le> length s \<and> lower (take (length ph) s) = lower ph"
proof -
  assume a: "startswith (lower s) (lower ph)"
  then have t: "take (length ph) (lower s) = lower ph" by (simp add: startswith_def lower_def)
  then have "length (take (length ph) (lower s)) = length (lower ph)" by simp
  then have "length ph \<le> length s" by (simp add: lower_def)
  moreover have "lower (take (length ph) s) = lower ph" using t by (simp add: lower_def take_map)
  ultimately show ?thesis by simp
qed

lemma untagged_sub_lit:
  "ph \<noteq> [] \<Longrightarrow> CHR ''>'' \<notin> set (lower ph) \<Longrightarrow> untagged (a @ s)
     \<Longrightarrow> untagged (a @ sub_from flags_I (lit ph) [] p s)"
proof (induction s arbitrary: a p rule: length_induct)
  case (1 s)
  note ph = "1.prems"(1) and ng = "1.prems"(2) and u = "1.prems"(3)
  show ?case
  proof (cases s)
    case Nil
    with ph u show ?thesis by (simp add: match_at_lit startswith_def lower_def)
  next
    case (Cons x xs)
    show ?thesis
    proof (cases "startswith (lower s) (lower ph)")
      case False
      have "untagged ((a @ [x]) @ xs)" using u Cons by simp
      moreover have "length xs < length s" using Cons by simp
      ultimately have "untagged ((a @ [x]) @ sub_from flags_I (lit ph) [] (Some x) xs)"
        using "1.IH" ph ng by blast
      with False Cons show ?thesis by (simp add: match_at_lit)
    next
      case True
      define n where "n = length ph"
      have n0: "0 < n" using ph by (simp add: n_def)
      from startswith_lower_take[OF True] have le: "n \<le> length s"
        and lo: "lower (take n s) = lower ph" by (simp_all add: n_def)
      have "CHR ''>'' \<notin> set (take n s)" using gt_in_lower[of "take n s"] lo ng by auto
      moreover have "untagged (a @ take n s @ drop n s)" using u by simp
      ultimately have "untagged (a @ [] @ drop n s)"
        by (intro untagged_replace[of a "take n s" "drop n s" "[]"]) simp_all
      then have ud: "untagged (a @ drop n s)" by simp
      have "length (drop n s) < length s" using n0 Cons by simp
      then have R: "\<And>q. untagged (a @ sub_from flags_I (lit ph) [] q (drop n s))"
        using "1.IH" ph ng ud by blast
      have m: "match_at flags_I (lit ph) p (x # xs) = Some (n, None)"
        using True Cons by (simp add: match_at_lit n_def)
      have d: "drop n s = drop (n - 1) xs" using n0 Cons by (cases n) simp_all
      show ?thesis
      proof (cases "n = 1")
        case True
        with R[of "Some x"] m d Cons show ?thesis by simp
      next
        case False
        with R[of "Some (xs ! (n - 2))"] m d n0 Cons show ?thesis by simp
      qed
    qed
  qed
qed

lemma untagged_remove_phrase:
  "ph \<noteq> [] \<Longrightarrow> CHR ''>'' \<notin> set (lower ph) \<Longrightarrow> untagged s \<Longrightarrow> untagged (remove_phrase s ph)"
  using untagged_sub_lit[of ph "[]" s None] by (simp add: remove_phrase_def re_sub_def)

lemma untagged_foldl_remove:
  "\<forall>ph\<in>set phs. ph \<noteq> [] \<and> CHR ''>'' \<notin> set (lower ph) \<Longrightarrow> untagged s
     \<Longrightarrow> untagged (foldl remove_phrase s phs)"
  by (induction phs arbitrary: s) (simp_all add: untagged_remove_phrase)

lemma cleanup_phrases_plain: "\<forall>ph\<in>set cleanup_phrases. ph \<noteq> [] \<and> CHR ''>'' \<notin> set (lower ph)"
  by (simp add: cleanup_phrases_def lower_def lower_char_table)

lemma clean_untagged: "clean_company_name x = Some c \<Longrightarrow> untagged c"
proof -
  assume a: "clean_company_name x = Some c"
  then obtain n where c: "c = squeeze (rstrip_chars ''.,;:''
      (foldl remove_phrase (squeeze (re_sub no_flags tag [] n)) cleanup_phrases))"
    by (auto simp: clean_company_name_def split: option.splits if_splits)
  have "untagged (re_sub no_flags tag [] n)" unfolding re_sub_def by (rule untagged_sub_tag)
  then have "untagged (squeeze (re_sub no_flags tag [] n))" by (rule untagged_squeeze)
  then have "untagged (foldl remove_phrase (squeeze (re_sub no_flags tag [] n)) cleanup_phrases)"
    by (rule untagged_foldl_remove[OF cleanup_phrases_plain])
  then have "untagged (rstrip_chars ''.,;:''
      (foldl remove_phrase (squeeze (re_sub no_flags tag [] n)) cleanup_phrases))"
    by (intro untagged_rstrip_chars) simp_all
  then show ?thesis unfolding c by (rule untagged_squeeze)
qed

text \<open>
  The same for \<^verbatim>\<open>ImprovedAnalyzer.clean_company_name\<close>: a cleaned name holds no match of
  the tag pattern, is free of repeated whitespace, and does not end in one of the
  characters \<^verbatim>\<open>.,;:\<close>.
\<close>

lemma scan_none_sub_id: "scan f r p s = [] \<Longrightarrow> sub_from f r repl p s = s"
  by (induction s arbitrary: p) (auto split: option.splits)

lemma rmatch_lit_some:
  "rmatch flags_I (lit ph) k (p, s, m, g) = Some r \<Longrightarrow>
     startswith (lower s) (lower ph) \<and> (\<exists>p'. k (p', drop (length ph) s, m + length ph, g) = Some r)"
proof (induction ph arbitrary: p s m)
  case Nil then show ?case by (auto simp: rmatch_lit startswith_def lower_def)
next
  case (Cons c cs)
  show ?case
  proof (cases s)
    case Nil with Cons.prems show ?thesis by (simp add: rmatch_lit)
  next
    case (Cons x xs)
    have e: "rmatch flags_I (lit (c # cs)) k (p, x # xs, m, g)
          = (if lower_char x = lower_char c then rmatch flags_I (lit cs) k (Some x, xs, m + 1, g) else None)"
      by (simp add: rmatch_lit flags_I_def)
    with Cons.prems Cons have lc: "lower_char x = lower_char c"
      and r: "rmatch flags_I (lit cs) k (Some x, xs, m + 1, g) = Some r"
      by (auto split: if_splits)
    from Cons.IH[OF r] lc Cons show ?thesis by (auto simp: startswith_def lower_def)
  qed
qed

lemma match_at_word:
  "match_at flags_I (word_pattern w) p s = Some (n, g) \<Longrightarrow>
     n = length w \<and> startswith (lower s) (lower w)"
proof -
  assume a: "match_at flags_I (word_pattern w) p s = Some (n, g)"
  then have "rmatch flags_I (lit w) (rmatch flags_I (seqs [WordB]) finish) (p, s, 0, None) = Some (n, g)"
    by (simp add: word_pattern_def match_at_def rmatch_seqs split: if_splits)
  from rmatch_lit_some[OF this] obtain p' where s: "startswith (lower s) (lower w)"
    and k: "rmatch flags_I (seqs [WordB]) finish (p', drop (length w) s, 0 + length w, None) = Some (n, g)"
    by blast
  from k have "n = length w" by (simp add: rmatch_seqs split: if_splits)
  with s show ?thesis by simp
qed

lemma untagged_sub_delete:
  assumes M: "\<forall>p s n g. match_at f r p s = Some (n, g) \<longrightarrow>
                 n \<le> length s \<and> CHR ''>'' \<notin> set (take n s)"
  shows "untagged (a @ s) \<Longrightarrow> untagged (a @ sub_from f r [] p s)"
proof (induction s arbitrary: a p rule: length_induct)
  case (1 s)
  note u = "1.prems"
  show ?case
  proof (cases s)
    case Nil
    with u show ?thesis by (simp split: option.splits)
  next
    case (Cons x xs)
    have step: "\<And>q. untagged (a @ x # sub_from f r [] q xs)"
    proof -
      fix q
      have "untagged ((a @ [x]) @ xs)" using u Cons by simp
      moreover have "length xs < length s" using Cons by simp
      ultimately have "untagged ((a @ [x]) @ sub_from f r [] q xs)" using "1.IH" by blast
      then show "untagged (a @ x # sub_from f r [] q xs)" by simp
    qed
    show ?thesis
    proof (cases "match_at f r p (x # xs)")
      case None
      with step[of "Some x"] Cons show ?thesis by simp
    next
      case (Some ng)
      obtain n g where ng: "ng = (n, g)" by (cases ng)
      from M Some ng have "n \<le> length (x # xs) \<and> CHR ''>'' \<notin> set (take n (x # xs))"
        by blast
      then have le: "n \<le> length s"
        and gt: "CHR ''>'' \<notin> set (take n s)" using Cons by simp_all
      show ?thesis
      proof (cases "n = 0")
        case True
        with step[of "Some x"] Some ng Cons show ?thesis by simp
      next
        case False
        have "untagged (a @ take n s @ drop n s)" using u by simp
        with gt have "untagged (a @ [] @ drop n s)"
          by (intro untagged_replace[of a "take n s" "drop n s" "[]"]) simp_all
        then have ud: "untagged (a @ drop n s)" by simp
        have "length (drop n s) < length s" using False Cons by simp
        then have R: "\<And>q. untagged (a @ sub_from f r [] q (drop n s))"
          using "1.IH" ud by blast
        have d: "drop n s = drop (n - 1) xs" using False Cons by (cases n) simp_all
        show ?thesis
        proof (cases "n = 1")
          case True
          with R[of "Some x"] Some ng d Cons show ?thesis by simp
        next
          case N: False
          with R[of "Some (xs ! (n - 2))"] Some ng d False Cons show ?thesis by simp
        qed
      qed
    qed
  qed
qed

lemma untagged_remove_word:
  assumes "CHR ''>'' \<notin> set (lower w)" and "untagged s"
  shows "untagged (remove_word s w)"
proof -
  have M: "\<forall>p s n g. match_at flags_I (word_pattern w) p s = Some (n, g) \<longrightarrow>
                 n \<le> length s \<and> CHR ''>'' \<notin> set (take n s)"
  proof (intro allI impI)
    fix p s n g
    assume "match_at flags_I (word_pattern w) p s = Some (n, g)"
    from match_at_word[OF this] have n: "n = length w" and sw: "startswith (lower s) (lower w)"
      by simp_all
    from startswith_lower_take[OF sw] have le: "length w \<le> length s"
      and lo: "lower (take (length w) s) = lower w" by simp_all
    have "CHR ''>'' \<notin> set (take (length w) s)"
      using gt_in_lower[of "take (length w) s"] lo assms(1) by auto
    with le n show "n \<le> length s \<and> CHR ''>'' \<notin> set (take n s)" by simp
  qed
  have u: "untagged ([] @ s)" using assms(2) by simp
  have "untagged ([] @ sub_from flags_I (word_pattern w) [] None s)"
    using M u by (rule untagged_sub_delete)
  then show ?thesis by (simp add: remove_word_def re_sub_def)
qed

lemma untagged_foldl_remove_word:
  "\<forall>w\<in>set ws. CHR ''>'' \<notin> set (lower w) \<Longrightarrow> untagged s \<Longrightarrow> untagged (foldl remove_word s ws)"
  by (induction ws arbitrary: s) (simp_all add: untagged_remove_word)

lemma words_to_remove_plain: "\<forall>w\<in>set words_to_remove. CHR ''>'' \<notin> set (lower w)"
  by (simp add: words_to_remove_def lower_def lower_char_table)

lemma ia_clean_shape:
  "ia_clean_company_name x = Some c \<Longrightarrow>
     \<exists>n. c = rstrip_chars ''.,;:''
             (squeeze (foldl remove_word (squeeze (re_sub no_flags tag [] n)) words_to_remove))
         \<and> 3 \<le> length c"
  by (auto simp: ia_clean_company_name_def Let_def split: option.splits if_splits)

lemma ia_clean_untagged: "ia_clean_company_name x = Some c \<Longrightarrow> untagged c"
proof -
  assume "ia_clean_company_name x = Some c"
  from ia_clean_shape[OF this] obtain n where c: "c = rstrip_chars ''.,;:''
             (squeeze (foldl remove_word (squeeze (re_sub no_flags tag [] n)) words_to_remove))"
    by blast
  have "untagged (re_sub no_flags tag [] n)" unfolding re_sub_def by (rule untagged_sub_tag)
  then have "untagged (squeeze (re_sub no_flags tag [] n))" by (rule untagged_squeeze)
  then have "untagged (foldl remove_word (squeeze (re_sub no_flags tag [] n)) words_to_remove)"
    by (rule untagged_foldl_remove_word[OF words_to_remove_plain])
  then have "untagged (squeeze (foldl remove_word (squeeze (re_sub no_flags tag [] n)) words_to_remove))"
    by (rule untagged_squeeze)
  then show ?thesis unfolding c by (intro untagged_rstrip_chars) simp_all
qed

lemma tight_append_tightish: "tight (a @ b) \<Longrightarrow> tightish a"
proof (induction a)
  case Nil show ?case by simp
next
  case (Cons x a)
  then show ?case by (cases a) (auto split: if_splits)
qed

lemma tightish_tight: "tightish a \<Longrightarrow> a \<noteq> [] \<Longrightarrow> \<not> isspace (last a) \<Longrightarrow> tight a"
proof (induction a)
  case Nil then show ?case by simp
next
  case (Cons x a)
  then show ?case by (cases a) (auto split: if_splits)
qed

lemma rstrip_chars_prefix: "\<exists>t. s = rstrip_chars cs s @ t"
  unfolding rstrip_chars_def using rev_dropWhile_split[of s "\<lambda>c. c \<in> set cs"] by blast

lemma squeezed_rstrip_chars:
  assumes "squeezed z" and "rstrip_chars cs z \<noteq> []" and "\<not> isspace (last (rstrip_chars cs z))"
  shows "squeezed (rstrip_chars cs z)"
proof -
  obtain t where z: "z = rstrip_chars cs z @ t" using rstrip_chars_prefix by blast
  define c where "c = rstrip_chars cs z"
  have zc: "z = c @ t" using z by (simp add: c_def)
  have "tight (c @ t)" using assms(1) zc by (simp add: squeezed_def)
  then have "tightish c" by (rule tight_append_tightish)
  then have t: "tight c" using assms(2,3) by (intro tightish_tight) (simp_all add: c_def)
  have cne: "c \<noteq> []" using assms(2) by (simp add: c_def)
  have "hd c = hd z" by (subst zc) (simp add: cne)
  moreover have "z \<noteq> []" using zc cne by simp
  then have "\<not> isspace (hd z)" using assms(1) by (simp add: squeezed_def)
  ultimately show ?thesis using t unfolding c_def[symmetric] by (simp add: squeezed_def)
qed

lemma rstrip_chars_idem: "rstrip_chars cs (rstrip_chars cs s) = rstrip_chars cs s"
  by (simp add: rstrip_chars_def)

lemma foldl_remove_word_absent:
  "\<forall>w\<in>set ws. finditer flags_I (word_pattern w) s = [] \<Longrightarrow> foldl remove_word s ws = s"
  by (induction ws) (simp_all add: remove_word_def re_sub_def finditer_def scan_none_sub_id)

lemma clean_idem:
  assumes "clean_company_name x = Some c"
    and "c \<noteq> []"
    and "\<forall>ph\<in>set cleanup_phrases. \<not> contains (lower c) (lower ph)"
    and "last c \<notin> set ''.,;:''"
  shows "clean_company_name (clean_company_name x) = clean_company_name x"
proof -
  from assms(1) obtain u where c: "c = squeeze u"
    by (auto simp: clean_company_name_def split: option.splits if_splits)
  have sq: "squeeze c = c" unfolding c by (rule squeeze_idem)
  have "untagged c" using assms(1) by (rule clean_untagged)
  then have t: "re_sub no_flags tag [] c = c" by (simp add: re_sub_def sub_tag_untagged)
  have f: "foldl remove_phrase c cleanup_phrases = c" using assms(3) by (rule foldl_remove_absent)
  have r: "rstrip_chars ''.,;:'' c = c" using assms(2,4) by (rule rstrip_chars_id)
  have "clean_company_name (Some c) = Some c"
    using assms(2) by (simp add: clean_company_name_def t sq f r)
  then show ?thesis using assms(1) by simp
qed

lemma ia_clean_idem:
  assumes "ia_clean_company_name x = Some c"
    and "\<forall>w\<in>set words_to_remove. finditer flags_I (word_pattern w) c = []"
    and "\<not> isspace (last c)"
  shows "ia_clean_company_name (ia_clean_company_name x) = ia_clean_company_name x"
proof -
  from ia_clean_shape[OF assms(1)] obtain n where
    c: "c = rstrip_chars ''.,;:''
             (squeeze (foldl remove_word (squeeze (re_sub no_flags tag [] n)) words_to_remove))"
    and len: "3 \<le> length c" by blast
  define z where "z = squeeze (foldl remove_word (squeeze (re_sub no_flags tag [] n)) words_to_remove)"
  have cz: "c = rstrip_chars ''.,;:'' z" using c by (simp add: z_def)
  have ne: "c \<noteq> []" using len by auto
  have "squeezed z" unfolding z_def by (rule squeezed_squeeze)
  then have "squeezed c" unfolding cz using ne assms(3) cz by (intro squeezed_rstrip_chars) simp_all
  then have sq: "squeeze c = c" by (rule squeezed_fixed)
  have "untagged c" using assms(1) by (rule ia_clean_untagged)
  then have t: "re_sub no_flags tag [] c = c" by (simp add: re_sub_def sub_tag_untagged)
  have f: "foldl remove_word c words_to_remove = c"
    using assms(2) by (rule foldl_remove_word_absent)
  have r: "rstrip_chars ''.,;:'' c = c" unfolding cz by (rule rstrip_chars_idem)
  have "ia_clean_company_name (Some c) = Some c"
    using ne len by (simp add: ia_clean_company_name_def t sq f r)
  then show ?thesis using assms(1) by simp
qed

text \<open>
  C5, as amended. For a text of code points below 256, the range of the model:
  cleaning a cleaned name once more with \<^verbatim>\<open>CompanyNameExtractor._clean_company_name\<close>
  changes nothing when the cleaned name is not empty, holds none of the cleanup phrases
  in any letter case and does not end in one of the characters \<^verbatim>\<open>.,;:\<close>; cleaning a
  cleaned name once more with \<^verbatim>\<open>ImprovedAnalyzer.clean_company_name\<close> changes nothing
  when the cleaned name holds none of the words to remove as a whole word in any letter
  case (the pattern of the word between word boundaries has no match in it) and does not
  end in a whitespace character.
\<close>

theorem clean_idempotent_on_stable:
  "(clean_company_name x = Some c \<and> c \<noteq> [] \<and>
      (\<forall>ph\<in>set cleanup_phrases. \<not> contains (lower c) (lower ph)) \<and>
      last c \<notin> set ''.,;:''
    \<longrightarrow> clean_company_name (clean_company_name x) = clean_company_name x) \<and>
   (ia_clean_company_name y = Some d \<and>
      (\<forall>w\<in>set words_to_remove. finditer flags_I (word_pattern w) d = []) \<and>
      \<not> isspace (last d)
    \<longrightarrow> ia_clean_company_name (ia_clean_company_name y) = ia_clean_company_name y)"
  using clean_idem[of x c] ia_clean_idem[of y d] by blast

lemma clean_acme: "clean_company_name (Some ''  Acme   Widgets Ltd. '') = Some ''Acme Widgets Ltd''"
  by (simp add: clean_company_name_def cleanup_phrases_def remove_phrase_def squeeze_collapse
      eval_chars eval_strings eval_regex)

lemma clean_home_1: "clean_company_name (Some ''HoHomeme'') = Some ''Home''"
  by (simp add: clean_company_name_def cleanup_phrases_def remove_phrase_def squeeze_collapse
      eval_chars eval_strings eval_regex)

lemma clean_home_2: "clean_company_name (Some ''Home'') = Some []"
  by (simp add: clean_company_name_def cleanup_phrases_def remove_phrase_def squeeze_collapse
      eval_chars eval_strings eval_regex)

lemma ia_abc_1: "ia_clean_company_name (Some ''abc .'') = Some ''abc ''"
  by (simp add: ia_clean_company_name_def words_to_remove_def remove_word_def word_pattern_def
      squeeze_collapse eval_chars eval_strings eval_regex)

lemma ia_abc_2: "ia_clean_company_name (Some ''abc '') = Some ''abc''"
  by (simp add: ia_clean_company_name_def words_to_remove_def remove_word_def word_pattern_def
      squeeze_collapse eval_chars eval_strings eval_regex)

lemma ia_clean_acme: "ia_clean_company_name (Some ''Acme  Widgets Ltd.'') = Some ''Acme Widgets Ltd''"
  by (simp add: ia_clean_company_name_def words_to_remove_def remove_word_def word_pattern_def
      squeeze_collapse eval_chars eval_strings eval_regex)

lemma acme_no_words:
  "\<forall>w\<in>set words_to_remove. finditer flags_I (word_pattern w) ''Acme Widgets Ltd'' = []"
  by (simp add: words_to_remove_def word_pattern_def eval_chars eval_regex)

theorem clean_idempotent_on_stable_witness:
  "clean_company_name (Some ''  Acme   Widgets Ltd. '') = Some ''Acme Widgets Ltd'' \<and>
   clean_company_name (clean_company_name (Some ''  Acme   Widgets Ltd. ''))
     = clean_company_name (Some ''  Acme   Widgets Ltd. '') \<and>
   ia_clean_company_name (Some ''Acme  Widgets Ltd.'') = Some ''Acme Widgets Ltd'' \<and>
   ia_clean_company_name (ia_clean_company_name (Some ''Acme  Widgets Ltd.''))
     = ia_clean_company_name (Some ''Acme  Widgets Ltd.'')"
  using clean_idempotent_on_stable [of "Some ''  Acme   Widgets Ltd. ''" "''Acme Widgets Ltd''"
      "Some ''Acme  Widgets Ltd.''" "''Acme Widgets Ltd''"]
  by (simp add: clean_acme ia_clean_acme acme_no_words cleanup_phrases_def lower_def
      startswith_def eval_chars)

text \<open>
  C5, as stated, fails for both cleaners. \<^verbatim>\<open>CompanyNameExtractor._clean_company_name\<close>:
  removing \<^verbatim>\<open>Home\<close> from \<^verbatim>\<open>HoHomeme\<close> leaves \<^verbatim>\<open>Home\<close>, which the next cleaning removes.
  \<^verbatim>\<open>ImprovedAnalyzer.clean_company_name\<close>: the trailing full stop of \<^verbatim>\<open>abc .\<close> is removed
  after the whitespace was trimmed, which leaves a trailing space for the next cleaning
  to trim.
\<close>

theorem clean_idempotent_counterexample:
  "clean_company_name (clean_company_name (Some ''HoHomeme''))
     \<noteq> clean_company_name (Some ''HoHomeme'') \<and>
   ia_clean_company_name (ia_clean_company_name (Some ''abc .''))
     \<noteq> ia_clean_company_name (Some ''abc .'')"
  by (simp add: clean_home_1 clean_home_2 ia_abc_1 ia_abc_2)


end
